theory Spec2Isabelle
  imports Complex_Main
begin

section \<open>Numbers, time and text\<close>

text \<open>
  The script \<^verbatim>\<open>scripts/tezos_tax_scan_2025.py\<close> computes with Python floats. They are
  idealised here as exact reals: IEEE rounding, infinities and NaN are outside the model,
  so \<^verbatim>\<open>clamp\<close> (which maps a non-finite float to 0.0) is the identity on every value the
  model can hold. The tolerance \<^verbatim>\<open>1e-12\<close> of the source is the constant \<open>eps\<close>.
\<close>

definition eps :: real where
  "eps = 1 / 10 ^ 12"

definition clamp :: "real \<Rightarrow> real" where
  "clamp n = n"

text \<open>
  An event carries its time as an ISO string \<^verbatim>\<open>2025-03-01T12:34:56Z\<close>. The strings the
  indexer delivers have one fixed layout, so they sort as the instants they denote. A
  timestamp is modelled as that instant, in whole seconds (UTC) since a fixed epoch:
  sorting by \<^verbatim>\<open>e.timestamp\<close> is sorting by the number, \<^verbatim>\<open>iso_to_dt\<close> is the identity,
  \<^verbatim>\<open>dt.strftime("%Y-%m-%d")\<close> is the day number, and \<^verbatim>\<open>(adt - dt).days\<close> is the
  floor of the difference in days, as \<^verbatim>\<open>timedelta.days\<close> is.
\<close>

type_synonym timestamp = nat

definition iso_to_dt :: "timestamp \<Rightarrow> timestamp" where
  "iso_to_dt s = s"

definition strftime_day :: "timestamp \<Rightarrow> nat" where
  "strftime_day t = t div 86400"

definition timedelta_days :: "timestamp \<Rightarrow> timestamp \<Rightarrow> int" where
  "timedelta_days adt t = (int adt - int t) div 86400"

text \<open>
  \<^verbatim>\<open>round(x, 8)\<close>: Python rounds to the nearest multiple of \<open>10\<^sup>-\<^sup>8\<close>, a tie going to
  the even neighbour.
\<close>

definition round_half_even :: "real \<Rightarrow> int" where
  "round_half_even y =
     (let f = \<lfloor>y\<rfloor>; d = y - of_int f
      in if d < 1 / 2 then f else if 1 / 2 < d then f + 1 else if even f then f else f + 1)"

definition round8 :: "real \<Rightarrow> real" where
  "round8 x = of_int (round_half_even (x * 10 ^ 8)) / 10 ^ 8"

text \<open>\<^verbatim>\<open>str.lower()\<close> on the ASCII letters (Tezos addresses and currency codes are ASCII).\<close>

definition lower_char :: "char \<Rightarrow> char" where
  "lower_char c =
     (case map_of (zip ''ABCDEFGHIJKLMNOPQRSTUVWXYZ'' ''abcdefghijklmnopqrstuvwxyz'') c of
        None \<Rightarrow> c
      | Some l \<Rightarrow> l)"

definition lower :: "string \<Rightarrow> string" where
  "lower s = map lower_char s"

text \<open>\<^verbatim>\<open>"|".join(tags)\<close>\<close>

fun join_pipe :: "string list \<Rightarrow> string" where
  "join_pipe [] = []"
| "join_pipe [t] = t"
| "join_pipe (t # u # ts) = t @ ''|'' @ join_pipe (u # ts)"

section \<open>Pricing\<close>

text \<open>
  \<^verbatim>\<open>http_get_json\<close> either raises (the request or the decoding failed) or returns a JSON
  value. The world outside the program is a parameter: \<open>fetch w d\<close> is what the price
  service answers for the history of day \<open>d\<close>, and \<open>str_float w\<close> is Python's
  \<^verbatim>\<open>float\<close> on strings (\<open>None\<close> where it raises \<^verbatim>\<open>ValueError\<close>).
\<close>

datatype json =
    JNull
  | JBool bool
  | JNum real
  | JStr string
  | JArr "json list"
  | JObj "(string \<times> json) list"

datatype exn = RequestFailed | KeyError | TypeError | ValueError

record world =
  fetch :: "nat \<Rightarrow> exn + json"
  str_float :: "string \<Rightarrow> real option"

text \<open>\<^verbatim>\<open>data[k]\<close> for a string key: only a dict has one; a repeated key keeps its last value.\<close>

fun getitem :: "json \<Rightarrow> string \<Rightarrow> exn + json" where
  "getitem (JObj kvs) k = (case map_of (rev kvs) k of None \<Rightarrow> Inl KeyError | Some v \<Rightarrow> Inr v)"
| "getitem JNull k = Inl TypeError"
| "getitem (JBool b) k = Inl TypeError"
| "getitem (JNum r) k = Inl TypeError"
| "getitem (JStr s) k = Inl TypeError"
| "getitem (JArr xs) k = Inl TypeError"

fun py_float :: "world \<Rightarrow> json \<Rightarrow> exn + real" where
  "py_float w (JNum r) = Inr r"
| "py_float w (JBool b) = Inr (if b then 1 else 0)"
| "py_float w (JStr s) = (case str_float w s of None \<Rightarrow> Inl ValueError | Some r \<Rightarrow> Inr r)"
| "py_float w JNull = Inl TypeError"
| "py_float w (JArr xs) = Inl TypeError"
| "py_float w (JObj kvs) = Inl TypeError"

text \<open>The body of the \<^verbatim>\<open>try\<close>: \<^verbatim>\<open>float(data["market_data"]["current_price"][self.vs])\<close>.\<close>

definition current_price :: "world \<Rightarrow> string \<Rightarrow> json \<Rightarrow> exn + real" where
  "current_price w v data =
     (case getitem data ''market_data'' of
        Inl x \<Rightarrow> Inl x
      | Inr md \<Rightarrow>
          (case getitem md ''current_price'' of
             Inl x \<Rightarrow> Inl x
           | Inr cp \<Rightarrow>
               (case getitem cp v of
                  Inl x \<Rightarrow> Inl x
                | Inr p \<Rightarrow> py_float w p)))"

text \<open>The \<^verbatim>\<open>PriceOracle\<close> object: its currency and its per-day cache.\<close>

record price_oracle =
  vs :: string
  cache :: "nat \<Rightarrow> real option"

definition PriceOracle :: "string \<Rightarrow> price_oracle" where
  "PriceOracle vs_currency = \<lparr>vs = lower vs_currency, cache = Map.empty\<rparr>"

text \<open>
  \<^verbatim>\<open>xtz_price_on_date\<close>: a cached day is answered from the cache; otherwise the service
  is asked, an exception of the request propagates, and any exception inside the
  \<^verbatim>\<open>try\<close> leaves the price at \<^verbatim>\<open>0.0\<close>, which is cached and returned.
\<close>

definition xtz_price_on_date :: "world \<Rightarrow> price_oracle \<Rightarrow> nat \<Rightarrow> exn + real \<times> price_oracle" where
  "xtz_price_on_date w orc d =
     (case cache orc d of
        Some p \<Rightarrow> Inr (p, orc)
      | None \<Rightarrow>
          (case fetch w d of
             Inl x \<Rightarrow> Inl x
           | Inr data \<Rightarrow>
               (let price = (case current_price w (vs orc) data of Inl x \<Rightarrow> 0 | Inr p \<Rightarrow> p)
                in Inr (price, orc\<lparr>cache := (cache orc)(d \<mapsto> price)\<rparr>))))"

definition xtz_fmv :: "world \<Rightarrow> price_oracle \<Rightarrow> timestamp \<Rightarrow> exn + real \<times> price_oracle" where
  "xtz_fmv w orc t = xtz_price_on_date w orc (strftime_day t)"

section \<open>Data model\<close>

record event =
  timestamp :: timestamp
  level :: int
  op_hash :: string
  kind :: string
  direction :: string
  counterparty :: string
  asset :: string
  quantity :: real
  fee_xtz :: real
  note_text :: string
  tags :: string
  confidence :: string

section \<open>Event building\<close>

text \<open>
  One XTZ transaction of the indexer, as \<^verbatim>\<open>build_events\<close> reads it: the timestamp
  (\<open>None\<close> when missing or empty), the sender's and target's addresses after the
  \<^verbatim>\<open>or ""\<close> defaults, the amount and fee in mutez after \<^verbatim>\<open>safe_float\<close>, whether
  \<^verbatim>\<open>parameter\<close> is truthy, the level and the hash.
\<close>

record xtz_op =
  op_timestamp :: "timestamp option"
  sender :: string
  target :: string
  amount :: real
  fee :: real
  has_parameter :: bool
  op_level :: int
  hash :: string

text \<open>The body of the loop over \<^verbatim>\<open>xtz_ops\<close>; \<open>None\<close> is \<^verbatim>\<open>continue\<close>.\<close>

definition xtz_op_event :: "string \<Rightarrow> xtz_op \<Rightarrow> event option" where
  "xtz_op_event address op =
     (let addr = lower address in
      case op_timestamp op of
        None \<Rightarrow> None
      | Some t \<Rightarrow>
          (let amount_xtz = amount op / 1000000;
               fee_x = fee op / 1000000
           in if amount_xtz = 0 \<and> fee_x = 0 then None
              else
                (let dir = (if lower (target op) = addr \<and> lower (sender op) \<noteq> addr
                            then ''in'' else ''out'');
                     cp = (if dir = ''in'' then sender op else target op);
                     nt = (if has_parameter op then ''contract_call'' else ''transfer'');
                     tags1 = (if 0 < amount_xtz \<and> dir = ''in'' then [''receipt''] else []);
                     tags2 = (if 0 < amount_xtz \<and> dir = ''out''
                              then tags1 @ [''payment_or_disposal''] else tags1);
                     self = (lower (sender op) = addr \<and> lower (target op) = addr);
                     tags3 = (if self then tags2 @ [''self_transfer''] else tags2);
                     conf = (if self then ''high'' else ''medium'')
                 in Some \<lparr>timestamp = t, level = op_level op, op_hash = hash op,
                           kind = ''xtz_transfer'', direction = dir, counterparty = cp,
                           asset = ''XTZ'', quantity = clamp amount_xtz, fee_xtz = clamp fee_x,
                           note_text = nt, tags = join_pipe tags3, confidence = conf\<rparr>)))"

text \<open>
  \<^verbatim>\<open>build_events\<close>: the events of the XTZ transactions, then the events of the token
  transfers, sorted by timestamp (Python's sort is stable, as \<open>sort_key\<close> is). The loop
  over the token transfers is not modelled; the events it appends are the parameter
  \<open>tok_events\<close>.
\<close>

definition build_events :: "string \<Rightarrow> xtz_op list \<Rightarrow> event list \<Rightarrow> event list" where
  "build_events address xtz_ops tok_events =
     sort_key timestamp (List.map_filter (xtz_op_event address) xtz_ops @ tok_events)"

section \<open>The FIFO engine (\<^verbatim>\<open>classify_irs\<close>)\<close>

text \<open>
  The dictionaries of the source are records; a key shared by two kinds of dictionary
  carries a prefix naming its dictionary.
\<close>

record lot =
  acquired_ts :: timestamp
  qty :: real
  basis_per :: real

record lot_detail =
  from_lot_acquired_ts :: timestamp
  take_qty :: real
  basis_per_usd :: real

record irs_disposal =
  irs_timestamp :: timestamp
  irs_asset :: string
  irs_qty_disposed :: real
  fmv_usd_per_xtz_used :: real
  proceeds_usd_est :: real
  basis_usd_fifo_est :: real
  gain_usd_est :: real
  irs_fee_xtz :: real
  irs_op_hash :: string
  lot_breakdown :: "lot_detail list"

record ledger_row =
  row_event :: event
  irs_category :: string
  irs_taxable :: string
  xtz_fmv_usd_daily :: "real option"

text \<open>
  The \<^verbatim>\<open>while\<close> loop of a disposal. The head lot is a dictionary changed in place, so
  a lot that keeps a remainder stays at the head with its new quantity.
\<close>

function fifo_loop ::
  "real \<Rightarrow> lot list \<Rightarrow> real \<Rightarrow> lot_detail list \<Rightarrow> real \<times> lot list \<times> real \<times> lot_detail list" where
  "fifo_loop qty_to_dispose [] basis lot_details = (qty_to_dispose, [], basis, lot_details)"
| "fifo_loop qty_to_dispose (l # rest) basis lot_details =
     (if eps < qty_to_dispose then
        (let take = min qty_to_dispose (qty l);
             basis' = basis + take * basis_per l;
             details' = lot_details @
               [\<lparr>from_lot_acquired_ts = acquired_ts l, take_qty = take, basis_per_usd = basis_per l\<rparr>];
             l' = l\<lparr>qty := qty l - take\<rparr>;
             q' = qty_to_dispose - take
         in if qty l' \<le> eps then fifo_loop q' rest basis' details'
            else fifo_loop q' (l' # rest) basis' details')
      else (qty_to_dispose, l # rest, basis, lot_details))"
  by pat_completeness auto
termination
proof (relation "measure (\<lambda>(q, lots, b, d). 2 * length lots + (if eps < q then 1 else 0))",
    goal_cases)
  case 1
  show ?case by simp
next
  case (2 q l rest b d take b' d' l' q')
  then show ?case by simp
next
  case (3 q l rest b d take b' d' l' q')
  then have "q' \<le> eps"
    by (auto simp: eps_def min_def split: if_splits)
  with 3 show ?case by simp
qed

record irs_state =
  xtz_lots :: "lot list"
  ledger :: "ledger_row list"
  disposals :: "irs_disposal list"

text \<open>
  The body of the loop over the events, after the price \<open>fmv_usd\<close> of the event's day
  has been looked up. The \<^verbatim>\<open>lot_breakdown_json\<close> of the source is the JSON text of
  \<open>lot_breakdown\<close>; the constant \<^verbatim>\<open>note\<close> of a row is left out.
\<close>

definition irs_event :: "real \<Rightarrow> event \<Rightarrow> irs_state \<Rightarrow> irs_state" where
  "irs_event fmv_usd e st =
     (if asset e = ''XTZ'' then
        (if direction e = ''in'' \<and> 0 < quantity e then
           st\<lparr>xtz_lots := xtz_lots st @
                 [\<lparr>acquired_ts = timestamp e, qty = quantity e, basis_per = fmv_usd\<rparr>],
               ledger := ledger st @
                 [\<lparr>row_event = e, irs_category = ''acquisition_or_income_review'',
                   irs_taxable = ''maybe'', xtz_fmv_usd_daily = Some (round8 fmv_usd)\<rparr>]\<rparr>
         else if direction e = ''out'' \<and> 0 < quantity e then
           (let proceeds = quantity e * fmv_usd;
                (q, lots, basis, lot_details) = fifo_loop (quantity e) (xtz_lots st) 0 [];
                g = proceeds - basis
            in st\<lparr>xtz_lots := lots,
                   disposals := disposals st @
                     [\<lparr>irs_timestamp = timestamp e, irs_asset = asset e,
                       irs_qty_disposed = quantity e,
                       fmv_usd_per_xtz_used = round8 fmv_usd,
                       proceeds_usd_est = round8 proceeds,
                       basis_usd_fifo_est = round8 basis,
                       gain_usd_est = round8 g,
                       irs_fee_xtz = fee_xtz e, irs_op_hash = op_hash e,
                       lot_breakdown = lot_details\<rparr>],
                   ledger := ledger st @
                     [\<lparr>row_event = e, irs_category = ''disposal_capital'',
                       irs_taxable = ''yes'', xtz_fmv_usd_daily = Some (round8 fmv_usd)\<rparr>]\<rparr>)
         else
           st\<lparr>ledger := ledger st @
                 [\<lparr>row_event = e, irs_category = ''review'', irs_taxable = ''unknown'',
                   xtz_fmv_usd_daily = Some (round8 fmv_usd)\<rparr>]\<rparr>)
      else if direction e = ''out'' then
        st\<lparr>ledger := ledger st @
              [\<lparr>row_event = e, irs_category = ''token_disposal_review'',
                irs_taxable = ''likely'', xtz_fmv_usd_daily = None\<rparr>]\<rparr>
      else
        st\<lparr>ledger := ledger st @
              [\<lparr>row_event = e, irs_category = ''token_acquisition_or_income_review'',
                irs_taxable = ''maybe'', xtz_fmv_usd_daily = None\<rparr>]\<rparr>)"

text \<open>
  The loop over the events: the price is looked up first (only for XTZ), and an
  exception of the lookup ends the run.
\<close>

fun classify_irs_loop ::
  "world \<Rightarrow> event list \<Rightarrow> price_oracle \<Rightarrow> irs_state \<Rightarrow> exn + irs_state \<times> price_oracle" where
  "classify_irs_loop w [] orc st = Inr (st, orc)"
| "classify_irs_loop w (e # es) orc st =
     (case (if asset e = ''XTZ'' then xtz_fmv w orc (iso_to_dt (timestamp e)) else Inr (0, orc)) of
        Inl x \<Rightarrow> Inl x
      | Inr (fmv_usd, orc') \<Rightarrow> classify_irs_loop w es orc' (irs_event fmv_usd e st))"

definition irs_init :: irs_state where
  "irs_init = \<lparr>xtz_lots = [], ledger = [], disposals = []\<rparr>"

definition classify_irs ::
  "world \<Rightarrow> event list \<Rightarrow> price_oracle \<Rightarrow> exn + ledger_row list \<times> irs_disposal list" where
  "classify_irs w events usd_oracle =
     (case classify_irs_loop w events usd_oracle irs_init of
        Inl x \<Rightarrow> Inl x
      | Inr (st, orc) \<Rightarrow> Inr (ledger st, disposals st))"

section \<open>The UK engine (\<^verbatim>\<open>hmrc_pooling_disposals\<close>)\<close>

text \<open>
  An acquisition is stored twice by the first pass: as a dictionary in its day's bucket
  of \<^verbatim>\<open>acq_by_day\<close> and as a tuple \<^verbatim>\<open>(dt, qty, cost_per, ts)\<close> in \<^verbatim>\<open>future_acqs\<close>.
\<close>

record acq =
  acq_ts :: timestamp
  acq_dt :: timestamp
  acq_qty :: real
  cost_per :: real

type_synonym future_acq = "timestamp \<times> real \<times> real \<times> timestamp"

text \<open>
  The entries of a matching breakdown: a same-day entry has no \<^verbatim>\<open>rule\<close> key, a 30-day
  entry has \<^verbatim>\<open>"rule": "30-day"\<close>, and the pool entry has the keys \<^verbatim>\<open>take_qty\<close>,
  \<^verbatim>\<open>avg_cost_per_gbp\<close> and \<^verbatim>\<open>rule\<close>.
\<close>

datatype used =
    AcqUsed (from_acq_ts: timestamp) (acq_take: real) (cost_per_gbp: real) (rule: "string option")
  | PoolUsed (pool_take: real) (avg_cost_per_gbp: real) (pool_rule: string)

fun used_take_qty :: "used \<Rightarrow> real" where
  "used_take_qty (AcqUsed ts tk c r) = tk"
| "used_take_qty (PoolUsed tk avg r) = tk"

record hmrc_disposal =
  hmrc_timestamp :: timestamp
  hmrc_asset :: string
  hmrc_qty_disposed :: real
  fmv_gbp_per_xtz_used :: real
  proceeds_gbp_est :: real
  allowable_cost_gbp_est :: real
  gain_gbp_est :: real
  hmrc_op_hash :: string
  matching_breakdown :: "used list"

record hmrc_state =
  acq_by_day :: "nat \<Rightarrow> acq list option"
  future_acqs :: "future_acq list"
  pool_qty :: real
  pool_cost_gbp :: real
  uk_disposals :: "hmrc_disposal list"

definition hmrc_init :: hmrc_state where
  "hmrc_init = \<lparr>acq_by_day = Map.empty, future_acqs = [], pool_qty = 0, pool_cost_gbp = 0,
                 uk_disposals = []\<rparr>"

text \<open>The body of the first pass, after the price of the event's day has been looked up.\<close>

definition record_acquisition :: "real \<Rightarrow> event \<Rightarrow> hmrc_state \<Rightarrow> hmrc_state" where
  "record_acquisition fmv_gbp e st =
     (let t = iso_to_dt (timestamp e); day = strftime_day t
      in if direction e = ''in'' then
           st\<lparr>acq_by_day := (acq_by_day st)(day \<mapsto>
                 (case acq_by_day st day of None \<Rightarrow> [] | Some l \<Rightarrow> l) @
                 [\<lparr>acq_ts = timestamp e, acq_dt = t, acq_qty = quantity e, cost_per = fmv_gbp\<rparr>]),
               future_acqs := future_acqs st @ [(t, quantity e, fmv_gbp, timestamp e)]\<rparr>
         else st)"

fun first_pass ::
  "world \<Rightarrow> event list \<Rightarrow> price_oracle \<Rightarrow> hmrc_state \<Rightarrow> exn + hmrc_state \<times> price_oracle" where
  "first_pass w [] orc st = Inr (st, orc)"
| "first_pass w (e # es) orc st =
     (case xtz_fmv w orc (iso_to_dt (timestamp e)) of
        Inl x \<Rightarrow> Inl x
      | Inr (fmv_gbp, orc') \<Rightarrow> first_pass w es orc' (record_acquisition fmv_gbp e st))"

text \<open>
  \<^verbatim>\<open>consume_from_list\<close>: the \<^verbatim>\<open>while\<close> loop walks the list by index and changes the
  records in place; the list is then filtered in place. The model returns the new list
  with the cost and the entries.
\<close>

function consume_loop ::
  "acq list \<Rightarrow> real \<Rightarrow> real \<Rightarrow> used list \<Rightarrow> nat \<Rightarrow> acq list \<times> real \<times> used list" where
  "consume_loop lst qty_needed cost us i =
     (if eps < qty_needed \<and> i < length lst then
        (let r = lst ! i;
             take = min qty_needed (acq_qty r);
             cost' = cost + take * cost_per r;
             us' = us @ [AcqUsed (acq_ts r) take (cost_per r) None];
             lst' = lst[i := r\<lparr>acq_qty := acq_qty r - take\<rparr>];
             q' = qty_needed - take
         in if acq_qty r - take \<le> eps then consume_loop lst' q' cost' us' (i + 1)
            else (lst', cost', us'))
      else (lst, cost, us))"
  by pat_completeness auto
termination
  by (relation "measure (\<lambda>(lst, q, c, us, i). length lst - i)") auto

definition consume_from_list :: "acq list \<Rightarrow> real \<Rightarrow> real \<times> used list \<times> acq list" where
  "consume_from_list lst qty_needed =
     (case consume_loop lst qty_needed 0 [] 0 of
        (lst', cost, us) \<Rightarrow> (cost, us, filter (\<lambda>r. eps < acq_qty r) lst'))"

text \<open>The filter of the 30-day step: \<^verbatim>\<open>adt > dt and (adt - dt).days <= 30 and aqty > 1e-12\<close>.\<close>

definition thirty_eligible :: "timestamp \<Rightarrow> future_acq \<Rightarrow> bool" where
  "thirty_eligible t a =
     (case a of (adt, aqty, cper, ts) \<Rightarrow> t < adt \<and> timedelta_days adt t \<le> 30 \<and> eps < aqty)"

text \<open>The write-back: the first tuple of \<^verbatim>\<open>future_acqs\<close> with the entry's timestamp.\<close>

fun write_back :: "future_acq list \<Rightarrow> timestamp \<Rightarrow> real \<Rightarrow> future_acq list" where
  "write_back [] ts tk = []"
| "write_back ((adt, aqty, cper, ts2) # rest) ts tk =
     (if ts2 = ts then (adt, aqty - tk, cper, ts2) # rest
      else (adt, aqty, cper, ts2) # write_back rest ts tk)"

fun thirty_loop ::
  "future_acq list \<Rightarrow> real \<Rightarrow> real \<Rightarrow> used list \<Rightarrow> future_acq list \<Rightarrow>
     real \<times> real \<times> used list \<times> future_acq list" where
  "thirty_loop [] qty_left cost_total match_used fut = (qty_left, cost_total, match_used, fut)"
| "thirty_loop ((adt, aqty, cper, ts) # recs) qty_left cost_total match_used fut =
     (if qty_left \<le> eps then (qty_left, cost_total, match_used, fut)
      else
        (let take = min qty_left aqty
         in thirty_loop recs (qty_left - take) (cost_total + take * cper)
              (match_used @ [AcqUsed ts take cper (Some ''30-day'')])
              (write_back fut ts take)))"

definition thirty_day_match ::
  "timestamp \<Rightarrow> future_acq list \<Rightarrow> real \<Rightarrow> real \<Rightarrow> used list \<Rightarrow>
     real \<times> real \<times> used list \<times> future_acq list" where
  "thirty_day_match t fut qty_left cost_total match_used =
     (if eps < qty_left then
        thirty_loop (sort_key fst (filter (thirty_eligible t) fut)) qty_left cost_total match_used fut
      else (qty_left, cost_total, match_used, fut))"

text \<open>
  The Section 104 step: the pool entries, the pool's contribution to the cost, and the
  pool's new quantity and cost.
\<close>

definition pool_match :: "real \<Rightarrow> real \<Rightarrow> real \<Rightarrow> used list \<times> real \<times> real \<times> real" where
  "pool_match pq pc qty_left =
     (if eps < qty_left then
        (if pq \<le> eps then ([], 0, pq, pc)
         else
           (let avg_cost = pc / pq; pool_cost = qty_left * avg_cost
            in ([PoolUsed qty_left avg_cost ''S104''], pool_cost, pq - qty_left, pc - pool_cost)))
      else ([], 0, pq, pc))"

text \<open>
  The body of the second pass. A bucket that exists is changed in place by
  \<^verbatim>\<open>consume_from_list\<close>; for a day with no bucket the default list is a fresh one.
\<close>

definition hmrc_event :: "real \<Rightarrow> event \<Rightarrow> hmrc_state \<Rightarrow> hmrc_state" where
  "hmrc_event fmv_gbp e st =
     (let t = iso_to_dt (timestamp e); day = strftime_day t
      in if direction e = ''in'' then
           st\<lparr>pool_qty := pool_qty st + quantity e,
               pool_cost_gbp := pool_cost_gbp st + quantity e * fmv_gbp\<rparr>
         else
           (let proceeds = quantity e * fmv_gbp;
                same_day_list = (case acq_by_day st day of None \<Rightarrow> [] | Some l \<Rightarrow> l);
                (same_day_cost, same_day_used, lst') = consume_from_list same_day_list (quantity e);
                by_day' = (case acq_by_day st day of
                             None \<Rightarrow> acq_by_day st
                           | Some l \<Rightarrow> (acq_by_day st)(day \<mapsto> lst'));
                qty_left = quantity e - sum_list (map used_take_qty same_day_used);
                (qty_left', cost_total, match_used, fut') =
                   thirty_day_match t (future_acqs st) qty_left same_day_cost same_day_used;
                (pool_used, pool_cost, pq', pc') =
                   pool_match (pool_qty st) (pool_cost_gbp st) qty_left';
                cost_total' = (if eps < qty_left' then cost_total + pool_cost else cost_total);
                gain = proceeds - cost_total'
            in st\<lparr>acq_by_day := by_day', future_acqs := fut', pool_qty := pq',
                   pool_cost_gbp := pc',
                   uk_disposals := uk_disposals st @
                     [\<lparr>hmrc_timestamp = timestamp e, hmrc_asset = ''XTZ'',
                       hmrc_qty_disposed = quantity e,
                       fmv_gbp_per_xtz_used = round8 fmv_gbp,
                       proceeds_gbp_est = round8 proceeds,
                       allowable_cost_gbp_est = round8 cost_total',
                       gain_gbp_est = round8 gain,
                       hmrc_op_hash = op_hash e,
                       matching_breakdown = match_used @ pool_used\<rparr>]\<rparr>))"

fun second_pass ::
  "world \<Rightarrow> event list \<Rightarrow> price_oracle \<Rightarrow> hmrc_state \<Rightarrow> exn + hmrc_state \<times> price_oracle" where
  "second_pass w [] orc st = Inr (st, orc)"
| "second_pass w (e # es) orc st =
     (case xtz_fmv w orc (iso_to_dt (timestamp e)) of
        Inl x \<Rightarrow> Inl x
      | Inr (fmv_gbp, orc') \<Rightarrow> second_pass w es orc' (hmrc_event fmv_gbp e st))"

definition xtz_events_of :: "event list \<Rightarrow> event list" where
  "xtz_events_of events =
     sort_key timestamp (filter (\<lambda>e. asset e = ''XTZ'' \<and> 0 < quantity e) events)"

text \<open>The whole run, returning the final state with the oracle; the function proper
  returns the disposals.\<close>

definition hmrc_run ::
  "world \<Rightarrow> event list \<Rightarrow> price_oracle \<Rightarrow> exn + hmrc_state \<times> price_oracle" where
  "hmrc_run w events gbp_oracle =
     (case first_pass w (xtz_events_of events) gbp_oracle hmrc_init of
        Inl x \<Rightarrow> Inl x
      | Inr (st, orc) \<Rightarrow> second_pass w (xtz_events_of events) orc st)"

definition hmrc_pooling_disposals ::
  "world \<Rightarrow> event list \<Rightarrow> price_oracle \<Rightarrow> exn + hmrc_disposal list" where
  "hmrc_pooling_disposals w events gbp_oracle =
     (case hmrc_run w events gbp_oracle of
        Inl x \<Rightarrow> Inl x
      | Inr (st, orc) \<Rightarrow> Inr (uk_disposals st))"

section \<open>Quantities read off a breakdown\<close>

text \<open>The cost a breakdown entry stands for: the quantity taken times its unit cost.\<close>

definition lot_cost :: "lot_detail \<Rightarrow> real" where
  "lot_cost x = take_qty x * basis_per_usd x"

fun used_cost :: "used \<Rightarrow> real" where
  "used_cost (AcqUsed ts tk c r) = tk * c"
| "used_cost (PoolUsed tk avg r) = tk * avg"

fun is_acq_used :: "used \<Rightarrow> bool" where
  "is_acq_used (AcqUsed ts tk c r) = True"
| "is_acq_used (PoolUsed tk avg r) = False"

text \<open>The quantity of a disposal matched to acquisitions (same-day and 30-day entries).\<close>

definition acq_matched :: "used list \<Rightarrow> real" where
  "acq_matched bd = sum_list (map used_take_qty (filter is_acq_used bd))"

section \<open>Inputs of the scenarios\<close>

text \<open>
  A price service that answers every day \<open>d\<close> with the price \<open>f d\<close> in both
  currencies, and an XTZ event with a time, a direction and a quantity.
\<close>

definition price_json :: "real \<Rightarrow> json" where
  "price_json p =
     JObj [(''market_data'', JObj [(''current_price'', JObj [(''usd'', JNum p), (''gbp'', JNum p)])])]"

definition priced_world :: "(nat \<Rightarrow> real) \<Rightarrow> world" where
  "priced_world f = \<lparr>fetch = (\<lambda>d. Inr (price_json (f d))), str_float = (\<lambda>s. None)\<rparr>"

definition xtz_ev :: "timestamp \<Rightarrow> string \<Rightarrow> real \<Rightarrow> event" where
  "xtz_ev t d q =
     \<lparr>timestamp = t, level = 0, op_hash = ''op'', kind = ''xtz_transfer'', direction = d,
       counterparty = [], asset = ''XTZ'', quantity = q, fee_xtz = 0, note_text = ''transfer'',
       tags = [], confidence = ''medium''\<rparr>"

text \<open>A transaction of 2 tez that the address \<^verbatim>\<open>tz1Abc\<close> sends to itself.\<close>

definition self_transfer_op :: xtz_op where
  "self_transfer_op =
     \<lparr>op_timestamp = Some 5, sender = ''tz1Abc'', target = ''tz1Abc'', amount = 2000000,
       fee = 100, has_parameter = False, op_level = 3, hash = ''oo''\<rparr>"

section \<open>Evaluation\<close>

lemmas oracle_defs = xtz_fmv_def xtz_price_on_date_def current_price_def priced_world_def
  price_json_def PriceOracle_def lower_def lower_char_def iso_to_dt_def strftime_day_def

lemmas num_defs = eps_def round8_def round_half_even_def Let_def

lemmas irs_defs = xtz_ev_def irs_init_def irs_event_def classify_irs_def fifo_loop.simps

lemmas hmrc_defs = xtz_ev_def hmrc_pooling_disposals_def hmrc_run_def xtz_events_of_def
  hmrc_init_def record_acquisition_def hmrc_event_def consume_from_list_def
  thirty_day_match_def thirty_eligible_def timedelta_days_def pool_match_def consume_loop.simps

lemma eps_pos: "0 < eps"
  by (simp add: eps_def)

section \<open>The FIFO loop\<close>

text \<open>
  The loop of a disposal has three kinds of step: it stops (the quantity is matched), it
  pops the head lot (taken whole, or left with a remainder within the tolerance), or it
  takes the whole quantity from the head lot and leaves the lot in place.
\<close>

declare fifo_loop.simps [simp del]


lemma fifo_loop_stop:
  "\<not> eps < q \<Longrightarrow> fifo_loop q lots b ds = (q, lots, b, ds)"
  by (cases lots) (simp_all add: fifo_loop.simps)

lemma fifo_loop_pop:
  "eps < q \<Longrightarrow> qty l - min q (qty l) \<le> eps \<Longrightarrow>
   fifo_loop q (l # rest) b ds =
     fifo_loop (q - min q (qty l)) rest (b + min q (qty l) * basis_per l)
       (ds @ [\<lparr>from_lot_acquired_ts = acquired_ts l, take_qty = min q (qty l),
               basis_per_usd = basis_per l\<rparr>])"
  by (simp add: fifo_loop.simps Let_def)

lemma fifo_loop_keep:
  assumes "eps < q" and "\<not> qty l - min q (qty l) \<le> eps"
  shows "fifo_loop q (l # rest) b ds =
     (0, l\<lparr>qty := qty l - q\<rparr> # rest, b + q * basis_per l,
      ds @ [\<lparr>from_lot_acquired_ts = acquired_ts l, take_qty = q, basis_per_usd = basis_per l\<rparr>])"
proof -
  have m: "min q (qty l) = q"
    using assms eps_pos by (simp add: min_def split: if_splits)
  have "fifo_loop q (l # rest) b ds =
      fifo_loop 0 (l\<lparr>qty := qty l - q\<rparr> # rest) (b + q * basis_per l)
       (ds @ [\<lparr>from_lot_acquired_ts = acquired_ts l, take_qty = q, basis_per_usd = basis_per l\<rparr>])"
    using assms by (simp add: fifo_loop.simps [of q] Let_def m)
  also have "\<dots> = (0, l\<lparr>qty := qty l - q\<rparr> # rest, b + q * basis_per l,
      ds @ [\<lparr>from_lot_acquired_ts = acquired_ts l, take_qty = q, basis_per_usd = basis_per l\<rparr>])"
    using eps_pos by (simp add: fifo_loop_stop)
  finally show ?thesis .
qed

lemma fifo_loop_cases [case_names Nil Stop Pop Keep]:
  assumes "\<And>q b ds. P q [] b ds"
    and "\<And>q l rest b ds. \<not> eps < q \<Longrightarrow> P q (l # rest) b ds"
    and "\<And>q l rest b ds. eps < q \<Longrightarrow> qty l - min q (qty l) \<le> eps \<Longrightarrow>
           P (q - min q (qty l)) rest (b + min q (qty l) * basis_per l)
             (ds @ [\<lparr>from_lot_acquired_ts = acquired_ts l, take_qty = min q (qty l),
                     basis_per_usd = basis_per l\<rparr>]) \<Longrightarrow>
           P q (l # rest) b ds"
    and "\<And>q l rest b ds. eps < q \<Longrightarrow> \<not> qty l - min q (qty l) \<le> eps \<Longrightarrow> P q (l # rest) b ds"
  shows "P q lots b ds"
proof (induction lots arbitrary: q b ds)
  case Nil
  show ?case by (rule assms(1))
next
  case (Cons l rest)
  show ?case
  proof (cases "eps < q")
    case False
    then show ?thesis by (rule assms(2))
  next
    case True
    show ?thesis
    proof (cases "qty l - min q (qty l) \<le> eps")
      case True
      from \<open>eps < q\<close> True Cons.IH show ?thesis by (rule assms(3))
    next
      case False
      from \<open>eps < q\<close> False show ?thesis by (rule assms(4))
    qed
  qed
qed


lemma fifo_loop_basis:
  "fifo_loop q lots b ds = (q', lots', b', ds') \<Longrightarrow>
     b' - sum_list (map lot_cost ds') = b - sum_list (map lot_cost ds)"
  by (induction q lots b ds rule: fifo_loop_cases)
    (auto simp: fifo_loop.simps(1) fifo_loop_stop fifo_loop_pop fifo_loop_keep lot_cost_def)


lemma fifo_loop_exhaust:
  "fifo_loop q lots b ds = (q', lots', b', ds') \<Longrightarrow> eps < q' \<Longrightarrow>
     lots' = [] \<and> q' = q - sum_list (map qty lots) \<and> length ds' = length ds + length lots"
proof (induction q lots b ds rule: fifo_loop_cases)
  case (Nil q b ds)
  then show ?case by (simp add: fifo_loop.simps(1))
next
  case (Stop q l rest b ds)
  then show ?case by (simp add: fifo_loop_stop)
next
  case (Pop q l rest b ds)
  from Pop.prems Pop.hyps have r: "fifo_loop (q - min q (qty l)) rest (b + min q (qty l) * basis_per l)
       (ds @ [\<lparr>from_lot_acquired_ts = acquired_ts l, take_qty = min q (qty l),
               basis_per_usd = basis_per l\<rparr>]) = (q', lots', b', ds')"
    by (simp add: fifo_loop_pop)
  note ih = Pop.IH [OF r Pop.prems(2)]
  have "min q (qty l) = qty l"
  proof (rule ccontr)
    assume "min q (qty l) \<noteq> qty l"
    then have "q - min q (qty l) = 0" by (simp add: min_def split: if_splits)
    with ih have "q' = - sum_list (map qty rest)" by simp
    moreover from r \<open>q - min q (qty l) = 0\<close> have "q' = 0"
      using eps_pos by (simp add: fifo_loop_stop)
    ultimately show False using Pop.prems(2) eps_pos by simp
  qed
  with ih show ?case by simp
next
  case (Keep q l rest b ds)
  then show ?case using eps_pos by (simp add: fifo_loop_keep)
qed

lemma fifo_loop_exit:
  "fifo_loop q lots b ds = (q', lots', b', ds') \<Longrightarrow> q' \<le> eps \<or> lots' = []"
  using fifo_loop_exhaust [of q lots b ds q' lots' b' ds'] by fastforce


section \<open>The loops of the UK engine\<close>

declare consume_loop.simps [simp del]

lemma consume_loop_stop:
  "\<not> (eps < qn \<and> i < length lst) \<Longrightarrow> consume_loop lst qn c us i = (lst, c, us)"
  by (subst consume_loop.simps) auto

lemma consume_loop_next:
  "eps < qn \<Longrightarrow> i < length lst \<Longrightarrow> acq_qty (lst ! i) - min qn (acq_qty (lst ! i)) \<le> eps \<Longrightarrow>
   consume_loop lst qn c us i =
     consume_loop (lst[i := (lst ! i)\<lparr>acq_qty := acq_qty (lst ! i) - min qn (acq_qty (lst ! i))\<rparr>])
       (qn - min qn (acq_qty (lst ! i))) (c + min qn (acq_qty (lst ! i)) * cost_per (lst ! i))
       (us @ [AcqUsed (acq_ts (lst ! i)) (min qn (acq_qty (lst ! i))) (cost_per (lst ! i)) None])
       (i + 1)"
  by (subst consume_loop.simps) (simp add: Let_def)

lemma consume_loop_break:
  "eps < qn \<Longrightarrow> i < length lst \<Longrightarrow> \<not> acq_qty (lst ! i) - min qn (acq_qty (lst ! i)) \<le> eps \<Longrightarrow>
   consume_loop lst qn c us i =
     (lst[i := (lst ! i)\<lparr>acq_qty := acq_qty (lst ! i) - min qn (acq_qty (lst ! i))\<rparr>],
      c + min qn (acq_qty (lst ! i)) * cost_per (lst ! i),
      us @ [AcqUsed (acq_ts (lst ! i)) (min qn (acq_qty (lst ! i))) (cost_per (lst ! i)) None])"
  by (subst consume_loop.simps) (simp add: Let_def)

lemma consume_loop_cases [case_names Stop Next Break]:
  assumes "\<And>(lst :: acq list) qn c us i. \<not> (eps < qn \<and> i < length lst) \<Longrightarrow> P lst qn c us i"
    and "\<And>(lst :: acq list) qn c us i. eps < qn \<Longrightarrow> i < length lst \<Longrightarrow>
           acq_qty (lst ! i) - min qn (acq_qty (lst ! i)) \<le> eps \<Longrightarrow>
           P (lst[i := (lst ! i)\<lparr>acq_qty := acq_qty (lst ! i) - min qn (acq_qty (lst ! i))\<rparr>])
             (qn - min qn (acq_qty (lst ! i))) (c + min qn (acq_qty (lst ! i)) * cost_per (lst ! i))
             (us @ [AcqUsed (acq_ts (lst ! i)) (min qn (acq_qty (lst ! i))) (cost_per (lst ! i)) None])
             (i + 1) \<Longrightarrow>
           P lst qn c us i"
    and "\<And>(lst :: acq list) qn c us i. eps < qn \<Longrightarrow> i < length lst \<Longrightarrow>
           \<not> acq_qty (lst ! i) - min qn (acq_qty (lst ! i)) \<le> eps \<Longrightarrow> P lst qn c us i"
  shows "P lst qn c us i"
proof (induction lst qn c us i rule: consume_loop.induct)
  case (1 lst qn c us i)
  show ?case
  proof (cases "eps < qn \<and> i < length lst")
    case False
    then show ?thesis by (rule assms(1))
  next
    case True
    show ?thesis
    proof (cases "acq_qty (lst ! i) - min qn (acq_qty (lst ! i)) \<le> eps")
      case le: True
      have "P (lst[i := (lst ! i)\<lparr>acq_qty := acq_qty (lst ! i) - min qn (acq_qty (lst ! i))\<rparr>])
             (qn - min qn (acq_qty (lst ! i))) (c + min qn (acq_qty (lst ! i)) * cost_per (lst ! i))
             (us @ [AcqUsed (acq_ts (lst ! i)) (min qn (acq_qty (lst ! i))) (cost_per (lst ! i)) None])
             (i + 1)"
        by (rule 1 [OF True refl refl refl refl refl refl le])
      with True le show ?thesis by (simp add: assms(2))
    next
      case False
      with True show ?thesis by (simp add: assms(3))
    qed
  qed
qed

lemma consume_loop_takes:
  "consume_loop lst qn c us i = (lst', c', us') \<Longrightarrow> 0 \<le> qn \<Longrightarrow>
     sum_list (map used_take_qty us') \<le> sum_list (map used_take_qty us) + qn"
  by (induction lst qn c us i rule: consume_loop_cases)
    (auto simp: consume_loop_stop consume_loop_next consume_loop_break)

lemma consume_loop_cost:
  "consume_loop lst qn c us i = (lst', c', us') \<Longrightarrow>
     c' - sum_list (map used_cost us') = c - sum_list (map used_cost us)"
  by (induction lst qn c us i rule: consume_loop_cases)
    (auto simp: consume_loop_stop consume_loop_next consume_loop_break)

lemma consume_loop_entries:
  "consume_loop lst qn c us i = (lst', c', us') \<Longrightarrow>
     set us' \<subseteq> set us \<union> {u. \<exists>ts tk cp. u = AcqUsed ts tk cp None}"
  by (induction lst qn c us i rule: consume_loop_cases)
    (auto simp: consume_loop_stop consume_loop_next consume_loop_break)

lemma consume_from_list_takes:
  "consume_from_list lst qn = (cost, us, lst') \<Longrightarrow> 0 \<le> qn \<Longrightarrow>
     sum_list (map used_take_qty us) \<le> qn"
  using consume_loop_takes [of lst qn 0 "[]" 0]
  by (auto simp: consume_from_list_def split: prod.splits)

lemma consume_from_list_cost:
  "consume_from_list lst qn = (cost, us, lst') \<Longrightarrow> cost = sum_list (map used_cost us)"
  using consume_loop_cost [of lst qn 0 "[]" 0]
  by (auto simp: consume_from_list_def split: prod.splits)

lemma consume_from_list_entries:
  "consume_from_list lst qn = (cost, us, lst') \<Longrightarrow> u \<in> set us \<Longrightarrow>
     \<exists>ts tk cp. u = AcqUsed ts tk cp None"
  using consume_loop_entries [of lst qn 0 "[]" 0]
  by (auto simp: consume_from_list_def split: prod.splits)

lemma thirty_loop_takes:
  "thirty_loop recs ql ct mu fut = (ql', ct', mu', fut') \<Longrightarrow>
     sum_list (map used_take_qty mu') = sum_list (map used_take_qty mu) + (ql - ql')"
  by (induction recs ql ct mu fut rule: thirty_loop.induct) (auto simp: Let_def split: if_splits)

lemma thirty_loop_cost:
  "thirty_loop recs ql ct mu fut = (ql', ct', mu', fut') \<Longrightarrow>
     ct' - sum_list (map used_cost mu') = ct - sum_list (map used_cost mu)"
  by (induction recs ql ct mu fut rule: thirty_loop.induct) (auto simp: Let_def split: if_splits)

lemma thirty_loop_nonneg:
  "thirty_loop recs ql ct mu fut = (ql', ct', mu', fut') \<Longrightarrow> 0 \<le> ql \<Longrightarrow> 0 \<le> ql'"
  by (induction recs ql ct mu fut rule: thirty_loop.induct) (auto simp: Let_def split: if_splits)

lemma thirty_loop_entries:
  "thirty_loop recs ql ct mu fut = (ql', ct', mu', fut') \<Longrightarrow>
     set mu' \<subseteq> set mu \<union>
       {u. \<exists>adt aqty cp ts tk. u = AcqUsed ts tk cp (Some ''30-day'') \<and> (adt, aqty, cp, ts) \<in> set recs}"
proof (induction recs ql ct mu fut rule: thirty_loop.induct)
  case (1 ql ct mu fut)
  then show ?case by simp
next
  case (2 adt aqty cper ts recs ql ct mu fut)
  show ?case
  proof (cases "ql \<le> eps")
    case True
    with 2(2) show ?thesis by auto
  next
    case False
    with 2(2) have r: "thirty_loop recs (ql - min ql aqty) (ct + min ql aqty * cper)
        (mu @ [AcqUsed ts (min ql aqty) cper (Some ''30-day'')]) (write_back fut ts (min ql aqty)) =
        (ql', ct', mu', fut')"
      by (simp add: Let_def)
    from 2(1) [OF False refl r] show ?thesis by fastforce
  qed
qed

section \<open>One event of the UK engine\<close>

lemma thirty_day_match_takes:
  "thirty_day_match t fut ql ct mu = (ql', ct', mu', fut') \<Longrightarrow>
     sum_list (map used_take_qty mu') = sum_list (map used_take_qty mu) + (ql - ql')"
  using thirty_loop_takes by (auto simp: thirty_day_match_def split: if_splits)

lemma thirty_day_match_cost:
  "thirty_day_match t fut ql ct mu = (ql', ct', mu', fut') \<Longrightarrow>
     ct' - sum_list (map used_cost mu') = ct - sum_list (map used_cost mu)"
  using thirty_loop_cost by (auto simp: thirty_day_match_def split: if_splits)

lemma thirty_day_match_nonneg:
  "thirty_day_match t fut ql ct mu = (ql', ct', mu', fut') \<Longrightarrow> 0 \<le> ql \<Longrightarrow> 0 \<le> ql'"
  using thirty_loop_nonneg by (auto simp: thirty_day_match_def split: if_splits)

lemma thirty_day_match_entries:
  assumes "thirty_day_match t fut ql ct mu = (ql', ct', mu', fut')" and "u \<in> set mu'"
  shows "u \<in> set mu \<or>
     (\<exists>adt aqty cp ts tk. u = AcqUsed ts tk cp (Some ''30-day'') \<and>
        (adt, aqty, cp, ts) \<in> set fut \<and> thirty_eligible t (adt, aqty, cp, ts))"
proof (cases "eps < ql")
  case False
  with assms show ?thesis by (simp add: thirty_day_match_def)
next
  case True
  with assms(1) have "thirty_loop (sort_key fst (filter (thirty_eligible t) fut)) ql ct mu fut =
      (ql', ct', mu', fut')"
    by (simp add: thirty_day_match_def)
  from thirty_loop_entries [OF this] assms(2) show ?thesis by auto
qed

lemma pool_match_debit:
  "eps < ql \<Longrightarrow> eps < pq \<Longrightarrow>
     pool_match pq pc ql = ([PoolUsed ql (pc / pq) ''S104''], ql * (pc / pq), pq - ql, pc - ql * (pc / pq))"
  by (simp add: pool_match_def Let_def)

lemma pool_match_none:
  "\<not> (eps < ql \<and> eps < pq) \<Longrightarrow> pool_match pq pc ql = ([], 0, pq, pc)"
  by (auto simp: pool_match_def Let_def)

lemma hmrc_event_in:
  "direction e = ''in'' \<Longrightarrow>
     hmrc_event fmv e st =
       st\<lparr>pool_qty := pool_qty st + quantity e,
           pool_cost_gbp := pool_cost_gbp st + quantity e * fmv\<rparr>"
  by (simp add: hmrc_event_def Let_def)

lemma hmrc_event_out:
  assumes "direction e \<noteq> ''in''"
  obtains sd_cost sd_used lst' ql ct mu fut' pu pcost pq' pc' where
    "consume_from_list (case acq_by_day st (strftime_day (timestamp e)) of None \<Rightarrow> [] | Some l \<Rightarrow> l)
       (quantity e) = (sd_cost, sd_used, lst')"
    and "thirty_day_match (timestamp e) (future_acqs st)
       (quantity e - sum_list (map used_take_qty sd_used)) sd_cost sd_used = (ql, ct, mu, fut')"
    and "pool_match (pool_qty st) (pool_cost_gbp st) ql = (pu, pcost, pq', pc')"
    and "pool_qty (hmrc_event fmv e st) = pq'"
    and "pool_cost_gbp (hmrc_event fmv e st) = pc'"
    and "future_acqs (hmrc_event fmv e st) = fut'"
    and "uk_disposals (hmrc_event fmv e st) = uk_disposals st @
       [\<lparr>hmrc_timestamp = timestamp e, hmrc_asset = ''XTZ'', hmrc_qty_disposed = quantity e,
         fmv_gbp_per_xtz_used = round8 fmv, proceeds_gbp_est = round8 (quantity e * fmv),
         allowable_cost_gbp_est = round8 (if eps < ql then ct + pcost else ct),
         gain_gbp_est = round8 (quantity e * fmv - (if eps < ql then ct + pcost else ct)),
         hmrc_op_hash = op_hash e, matching_breakdown = mu @ pu\<rparr>]"
proof -
  obtain sd_cost sd_used lst' where a:
    "consume_from_list (case acq_by_day st (strftime_day (timestamp e)) of None \<Rightarrow> [] | Some l \<Rightarrow> l)
       (quantity e) = (sd_cost, sd_used, lst')"
    by (metis prod_cases3)
  obtain ql ct mu fut' where b: "thirty_day_match (timestamp e) (future_acqs st)
       (quantity e - sum_list (map used_take_qty sd_used)) sd_cost sd_used = (ql, ct, mu, fut')"
    by (metis prod_cases4)
  obtain pu pcost pq' pc' where c:
    "pool_match (pool_qty st) (pool_cost_gbp st) ql = (pu, pcost, pq', pc')"
    by (metis prod_cases4)
  show thesis
    by (rule that [OF a b c]) (use assms a b c in \<open>simp_all add: hmrc_event_def Let_def iso_to_dt_def\<close>)
qed

text \<open>What the two matching steps of a disposal leave: the residual, the cost so far, the entries.\<close>

lemma hmrc_matching_summary:
  assumes a: "consume_from_list lst q = (sd_cost, sd_used, lst')"
    and b: "thirty_day_match t fut (q - sum_list (map used_take_qty sd_used)) sd_cost sd_used =
       (ql, ct, mu, fut')"
  shows "sum_list (map used_take_qty mu) = q - ql"
    and "ct = sum_list (map used_cost mu)"
    and "0 \<le> q \<Longrightarrow> 0 \<le> ql"
    and "filter is_acq_used mu = mu"
proof -
  from thirty_day_match_takes [OF b] show "sum_list (map used_take_qty mu) = q - ql" by simp
  from thirty_day_match_cost [OF b] consume_from_list_cost [OF a]
  show "ct = sum_list (map used_cost mu)" by simp
  show "0 \<le> ql" if "0 \<le> q"
    using thirty_day_match_nonneg [OF b] consume_from_list_takes [OF a that] by simp
  have "is_acq_used u" if "u \<in> set mu" for u
  proof -
    from thirty_day_match_entries [OF b that] consume_from_list_entries [OF a]
    obtain ts tk cp r where "u = AcqUsed ts tk cp r" by blast
    then show ?thesis by simp
  qed
  then show "filter is_acq_used mu = mu" by (simp add: filter_id_conv)
qed

section \<open>The pool and the 30-day window\<close>

lemma pool_match_entries:
  "pool_match pq pc ql = (pu, pcost, pq', pc') \<Longrightarrow> filter is_acq_used pu = []"
  by (auto simp: pool_match_def Let_def split: if_splits)

lemma hmrc_event_residual:
  assumes "direction e \<noteq> ''in''"
    and "consume_from_list (case acq_by_day st (strftime_day (timestamp e)) of None \<Rightarrow> [] | Some l \<Rightarrow> l)
       (quantity e) = (sd_cost, sd_used, lst')"
    and "thirty_day_match (timestamp e) (future_acqs st)
       (quantity e - sum_list (map used_take_qty sd_used)) sd_cost sd_used = (ql, ct, mu, fut')"
    and "pool_match (pool_qty st) (pool_cost_gbp st) ql = (pu, pcost, pq', pc')"
  shows "acq_matched (mu @ pu) = quantity e - ql"
  using hmrc_matching_summary(1,4) [OF assms(2,3)] pool_match_entries [OF assms(4)]
  by (simp add: acq_matched_def)

text \<open>
  C7. In the chronological pass every acquisition adds its quantity to \<open>pool_qty\<close> and its
  quantity times the day's price to \<open>pool_cost_gbp\<close>, and touches nothing else. A disposal
  debits the pool only by the residual, the disposed quantity less what its breakdown
  matched to acquisitions, at the average cost \<open>pool_cost_gbp / pool_qty\<close> of that moment;
  when the residual or the pool is within the tolerance the pool is left as it is.
\<close>

theorem pool_credit_and_residual_debit:
  "(direction e = ''in'' \<longrightarrow>
      pool_qty (hmrc_event fmv e st) = pool_qty st + quantity e \<and>
      pool_cost_gbp (hmrc_event fmv e st) = pool_cost_gbp st + quantity e * fmv \<and>
      acq_by_day (hmrc_event fmv e st) = acq_by_day st \<and>
      future_acqs (hmrc_event fmv e st) = future_acqs st \<and>
      uk_disposals (hmrc_event fmv e st) = uk_disposals st) \<and>
   (direction e \<noteq> ''in'' \<longrightarrow>
      (let st' = hmrc_event fmv e st;
           residual = quantity e - acq_matched (matching_breakdown (last (uk_disposals st')))
       in if eps < residual \<and> eps < pool_qty st
          then pool_qty st' = pool_qty st - residual \<and>
               pool_cost_gbp st' = pool_cost_gbp st - residual * (pool_cost_gbp st / pool_qty st)
          else pool_qty st' = pool_qty st \<and> pool_cost_gbp st' = pool_cost_gbp st))"
proof (intro conjI impI)
  assume d: "direction e \<noteq> ''in''"
  from d obtain sd_cost sd_used lst' ql ct mu fut' pu pcost pq' pc' where
    a: "consume_from_list (case acq_by_day st (strftime_day (timestamp e)) of None \<Rightarrow> [] | Some l \<Rightarrow> l)
       (quantity e) = (sd_cost, sd_used, lst')"
    and b: "thirty_day_match (timestamp e) (future_acqs st)
       (quantity e - sum_list (map used_take_qty sd_used)) sd_cost sd_used = (ql, ct, mu, fut')"
    and c: "pool_match (pool_qty st) (pool_cost_gbp st) ql = (pu, pcost, pq', pc')"
    and q: "pool_qty (hmrc_event fmv e st) = pq'"
    and p: "pool_cost_gbp (hmrc_event fmv e st) = pc'"
    and u: "matching_breakdown (last (uk_disposals (hmrc_event fmv e st))) = mu @ pu"
    by (rule hmrc_event_out [of e st fmv]) simp
  have r: "quantity e - acq_matched (mu @ pu) = ql"
    using hmrc_event_residual [OF d a b c] by simp
  show "let st' = hmrc_event fmv e st;
           residual = quantity e - acq_matched (matching_breakdown (last (uk_disposals st')))
       in if eps < residual \<and> eps < pool_qty st
          then pool_qty st' = pool_qty st - residual \<and>
               pool_cost_gbp st' = pool_cost_gbp st - residual * (pool_cost_gbp st / pool_qty st)
          else pool_qty st' = pool_qty st \<and> pool_cost_gbp st' = pool_cost_gbp st"
  proof (cases "eps < ql \<and> eps < pool_qty st")
    case True
    with c have "pq' = pool_qty st - ql" "pc' = pool_cost_gbp st - ql * (pool_cost_gbp st / pool_qty st)"
      by (simp_all add: pool_match_debit)
    with True show ?thesis by (simp add: Let_def u r q p)
  next
    case False
    with c have "pq' = pool_qty st" "pc' = pool_cost_gbp st"
      by (simp_all add: pool_match_none)
    with False show ?thesis by (auto simp: Let_def u r q p)
  qed
qed (simp_all add: hmrc_event_in)

theorem pool_credit_and_residual_debit_witness:
  "direction (xtz_ev 0 ''in'' 5) = ''in'' \<and>
   pool_qty (hmrc_event 2 (xtz_ev 0 ''in'' 5) hmrc_init) = 5 \<and>
   pool_cost_gbp (hmrc_event 2 (xtz_ev 0 ''in'' 5) hmrc_init) = 10 \<and>
   direction (xtz_ev 3456000 ''out'' 4) \<noteq> ''in'' \<and>
   quantity (xtz_ev 3456000 ''out'' 4) -
     acq_matched (matching_breakdown (last (uk_disposals
       (hmrc_event 3 (xtz_ev 3456000 ''out'' 4) (hmrc_event 2 (xtz_ev 0 ''in'' 5) hmrc_init))))) = 4 \<and>
   pool_qty (hmrc_event 3 (xtz_ev 3456000 ''out'' 4) (hmrc_event 2 (xtz_ev 0 ''in'' 5) hmrc_init)) = 1 \<and>
   pool_cost_gbp (hmrc_event 3 (xtz_ev 3456000 ''out'' 4) (hmrc_event 2 (xtz_ev 0 ''in'' 5) hmrc_init)) = 2"
  using pool_credit_and_residual_debit [of "xtz_ev 0 ''in'' 5" 2 hmrc_init]
    pool_credit_and_residual_debit [of "xtz_ev 3456000 ''out'' 4" 3
      "hmrc_event 2 (xtz_ev 0 ''in'' 5) hmrc_init"]
  by (simp add: hmrc_defs num_defs iso_to_dt_def strftime_day_def acq_matched_def)

lemma thirty_eligible_window:
  "thirty_eligible t (adt, aqty, c, ts) = (t < adt \<and> adt < t + 31 * 86400 \<and> eps < aqty)"
  unfolding thirty_eligible_def timedelta_days_def by (simp split: prod.splits) arith

text \<open>
  What does hold: a 30-day entry in the breakdown of a disposal at time \<open>T\<close> comes from
  an acquisition of \<open>future_acqs\<close> that passed the filter, so it lies strictly after \<open>T\<close>.
\<close>

lemma thirty_day_entries_eligible:
  assumes d: "direction e \<noteq> ''in''"
    and h: "AcqUsed ts tk cp (Some ''30-day'') \<in>
      set (matching_breakdown (last (uk_disposals (hmrc_event fmv e st))))"
  shows "\<exists>adt aqty. (adt, aqty, cp, ts) \<in> set (future_acqs st) \<and> timestamp e < adt \<and>
     timedelta_days adt (timestamp e) \<le> 30 \<and> eps < aqty"
proof -
  from d obtain sd_cost sd_used lst' ql ct mu fut' pu pcost pq' pc' where
    a: "consume_from_list (case acq_by_day st (strftime_day (timestamp e)) of None \<Rightarrow> [] | Some l \<Rightarrow> l)
       (quantity e) = (sd_cost, sd_used, lst')"
    and b: "thirty_day_match (timestamp e) (future_acqs st)
       (quantity e - sum_list (map used_take_qty sd_used)) sd_cost sd_used = (ql, ct, mu, fut')"
    and c: "pool_match (pool_qty st) (pool_cost_gbp st) ql = (pu, pcost, pq', pc')"
    and u: "matching_breakdown (last (uk_disposals (hmrc_event fmv e st))) = mu @ pu"
    by (rule hmrc_event_out [of e st fmv]) simp
  from pool_match_entries [OF c] have "AcqUsed ts tk cp (Some ''30-day'') \<notin> set pu"
    by (auto simp: filter_empty_conv)
  with h u have m: "AcqUsed ts tk cp (Some ''30-day'') \<in> set mu" by simp
  from thirty_day_match_entries [OF b m] consume_from_list_entries [OF a]
  obtain adt aqty where "(adt, aqty, cp, ts) \<in> set (future_acqs st)"
    "thirty_eligible (timestamp e) (adt, aqty, cp, ts)"
    by fastforce
  then show ?thesis
    by (auto simp: thirty_eligible_def)
qed

text \<open>
  C8. The claim does not hold of the code. The filter \<^verbatim>\<open>(adt - dt).days <= 30\<close> floors
  the difference to whole days, so it accepts every acquisition less than 31 times 24
  hours after the disposal, although its own comment gives the window as
  \<^verbatim>\<open>(dt, dt+30d]\<close>. A disposal of 3 units at 23:00 of day 0 (second 82800) and an
  acquisition of 5 units at 01:00 of day 31 (second 2682000): the acquisition is dated 31
  calendar days after the disposal and lies more than 30 times 24 hours after it, yet it
  passes the filter and the run matches the disposal to it under the 30-day rule.
\<close>

theorem thirty_day_window_too_wide:
  "strftime_day 82800 = 0 \<and> strftime_day 2682000 = 31 \<and>
   82800 + 30 * 86400 < (2682000 :: nat) \<and>
   thirty_eligible 82800 (2682000, 5, 1, 2682000) \<and>
   hmrc_pooling_disposals (priced_world (\<lambda>d. 1))
     [xtz_ev 82800 ''out'' 3, xtz_ev 2682000 ''in'' 5] (PriceOracle ''gbp'') =
   Inr [\<lparr>hmrc_timestamp = 82800, hmrc_asset = ''XTZ'', hmrc_qty_disposed = 3,
          fmv_gbp_per_xtz_used = 1, proceeds_gbp_est = 3, allowable_cost_gbp_est = 3,
          gain_gbp_est = 0, hmrc_op_hash = ''op'',
          matching_breakdown = [AcqUsed 2682000 3 1 (Some ''30-day'')]\<rparr>]"
  by (simp add: oracle_defs num_defs hmrc_defs)

section \<open>One event of the FIFO engine\<close>

lemma irs_event_out:
  assumes "asset e = ''XTZ''" and "direction e = ''out''" and "0 < quantity e"
  obtains q' lots' basis ds where
    "fifo_loop (quantity e) (xtz_lots st) 0 [] = (q', lots', basis, ds)"
    and "xtz_lots (irs_event fmv e st) = lots'"
    and "disposals (irs_event fmv e st) = disposals st @
       [\<lparr>irs_timestamp = timestamp e, irs_asset = asset e, irs_qty_disposed = quantity e,
         fmv_usd_per_xtz_used = round8 fmv, proceeds_usd_est = round8 (quantity e * fmv),
         basis_usd_fifo_est = round8 basis, gain_usd_est = round8 (quantity e * fmv - basis),
         irs_fee_xtz = fee_xtz e, irs_op_hash = op_hash e, lot_breakdown = ds\<rparr>]"
proof -
  obtain q' lots' basis ds where a:
    "fifo_loop (quantity e) (xtz_lots st) 0 [] = (q', lots', basis, ds)"
    by (metis prod_cases4)
  show thesis
    by (rule that [OF a]) (use assms a in \<open>simp_all add: irs_event_def Let_def\<close>)
qed

lemma fifo_loop_lower:
  "fifo_loop q lots b ds = (q', lots', b', ds') \<Longrightarrow> list_all (\<lambda>l. 0 \<le> qty l) lots \<Longrightarrow>
     q - sum_list (map qty lots) \<le> q'"
proof (induction q lots b ds rule: fifo_loop_cases)
  case (Nil q b ds)
  then show ?case by (simp add: fifo_loop.simps(1))
next
  case (Stop q l rest b ds)
  from Stop.prems(2) have "0 \<le> sum_list (map qty (l # rest))"
    by (intro sum_list_nonneg) (auto simp: list_all_iff)
  with Stop show ?case by (simp add: fifo_loop_stop)
next
  case (Pop q l rest b ds)
  from Pop.prems Pop.hyps have r: "fifo_loop (q - min q (qty l)) rest (b + min q (qty l) * basis_per l)
       (ds @ [\<lparr>from_lot_acquired_ts = acquired_ts l, take_qty = min q (qty l),
               basis_per_usd = basis_per l\<rparr>]) = (q', lots', b', ds')"
    by (simp add: fifo_loop_pop)
  from Pop.IH [OF r] Pop.prems(2) show ?case by simp
next
  case (Keep q l rest b ds)
  from Keep.prems(2) have "0 \<le> sum_list (map qty rest)"
    by (intro sum_list_nonneg) (auto simp: list_all_iff)
  with Keep show ?case using eps_pos by (simp add: fifo_loop_keep min_def split: if_splits)
qed

lemma fifo_loop_lots_nonneg:
  "fifo_loop q lots b ds = (q', lots', b', ds') \<Longrightarrow> list_all (\<lambda>l. 0 \<le> qty l) lots \<Longrightarrow>
     list_all (\<lambda>l. 0 \<le> qty l) lots'"
proof (induction q lots b ds rule: fifo_loop_cases)
  case (Keep q l rest b ds)
  then show ?case using eps_pos by (auto simp: fifo_loop_keep min_def split: if_splits)
qed (auto simp: fifo_loop.simps(1) fifo_loop_stop fifo_loop_pop)

text \<open>A disposal that leaves a shortfall has taken every lot whole.\<close>

lemma fifo_loop_whole_lots:
  "fifo_loop q lots b ds = (q', lots', b', ds') \<Longrightarrow> eps < q' \<Longrightarrow>
     ds' = ds @ map (\<lambda>l. \<lparr>from_lot_acquired_ts = acquired_ts l, take_qty = qty l,
                          basis_per_usd = basis_per l\<rparr>) lots"
proof (induction q lots b ds rule: fifo_loop_cases)
  case (Nil q b ds)
  then show ?case by (simp add: fifo_loop.simps(1))
next
  case (Stop q l rest b ds)
  then show ?case by (simp add: fifo_loop_stop)
next
  case (Pop q l rest b ds)
  from Pop.prems Pop.hyps have r: "fifo_loop (q - min q (qty l)) rest (b + min q (qty l) * basis_per l)
       (ds @ [\<lparr>from_lot_acquired_ts = acquired_ts l, take_qty = min q (qty l),
               basis_per_usd = basis_per l\<rparr>]) = (q', lots', b', ds')"
    by (simp add: fifo_loop_pop)
  have "min q (qty l) = qty l"
  proof (rule ccontr)
    assume "min q (qty l) \<noteq> qty l"
    then have "q - min q (qty l) = 0" by (simp add: min_def split: if_splits)
    with r have "q' = 0" using eps_pos by (simp add: fifo_loop_stop)
    with Pop.prems(2) eps_pos show False by simp
  qed
  with Pop.IH [OF r Pop.prems(2)] show ?case by simp
next
  case (Keep q l rest b ds)
  then show ?case using eps_pos by (simp add: fifo_loop_keep)
qed



section \<open>The quantities of a breakdown\<close>




section \<open>Runs\<close>

text \<open>A price lookup fails only when the day is not cached and the request itself fails.\<close>

lemma xtz_price_on_date_Inl:
  "xtz_price_on_date w orc d = Inl x \<longleftrightarrow> cache orc d = None \<and> fetch w d = Inl x"
  by (auto simp: xtz_price_on_date_def Let_def split: option.splits sum.splits)

lemma xtz_fmv_ok:
  assumes "\<And>d. \<exists>j. fetch w d = Inr j"
  obtains p orc' where "xtz_fmv w orc t = Inr (p, orc')"
proof (cases "xtz_fmv w orc t")
  case (Inl x)
  then have "fetch w (strftime_day t) = Inl x"
    by (simp add: xtz_fmv_def xtz_price_on_date_Inl)
  with assms [of "strftime_day t"] show ?thesis by simp
next
  case (Inr r)
  then show ?thesis by (cases r) (simp add: that)
qed

lemma classify_irs_loop_ok:
  assumes "\<And>d. \<exists>j. fetch w d = Inr j"
  shows "\<exists>r. classify_irs_loop w es orc st = Inr r"
proof (induction es arbitrary: orc st)
  case Nil
  show ?case by simp
next
  case (Cons e es)
  obtain p orc' where "xtz_fmv w orc (iso_to_dt (timestamp e)) = Inr (p, orc')"
    using assms by (rule xtz_fmv_ok)
  with Cons [of orc'] Cons [of orc] show ?case by simp
qed

lemma first_pass_ok:
  assumes "\<And>d. \<exists>j. fetch w d = Inr j"
  shows "\<exists>r. first_pass w es orc st = Inr r"
proof (induction es arbitrary: orc st)
  case Nil
  show ?case by simp
next
  case (Cons e es)
  obtain p orc' where "xtz_fmv w orc (iso_to_dt (timestamp e)) = Inr (p, orc')"
    using assms by (rule xtz_fmv_ok)
  with Cons [of orc'] show ?case by simp
qed

lemma second_pass_ok:
  assumes "\<And>d. \<exists>j. fetch w d = Inr j"
  shows "\<exists>r. second_pass w es orc st = Inr r"
proof (induction es arbitrary: orc st)
  case Nil
  show ?case by simp
next
  case (Cons e es)
  obtain p orc' where "xtz_fmv w orc (iso_to_dt (timestamp e)) = Inr (p, orc')"
    using assms by (rule xtz_fmv_ok)
  with Cons [of orc'] show ?case by simp
qed

lemma classify_irs_ok:
  assumes "\<And>d. \<exists>j. fetch w d = Inr j"
  shows "\<exists>r. classify_irs w es orc = Inr r"
  using classify_irs_loop_ok [OF assms, of es orc irs_init]
  by (auto simp: classify_irs_def)

lemma hmrc_pooling_disposals_ok:
  assumes "\<And>d. \<exists>j. fetch w d = Inr j"
  shows "\<exists>r. hmrc_pooling_disposals w es orc = Inr r"
proof -
  obtain st1 orc1 where a: "first_pass w (xtz_events_of es) orc hmrc_init = Inr (st1, orc1)"
    using first_pass_ok [OF assms, of "xtz_events_of es" orc hmrc_init] by auto
  obtain st2 orc2 where "second_pass w (xtz_events_of es) orc1 st1 = Inr (st2, orc2)"
    using second_pass_ok [OF assms, of "xtz_events_of es" orc1 st1] by auto
  with a show ?thesis by (simp add: hmrc_pooling_disposals_def hmrc_run_def)
qed

lemma xtz_events_of_sort:
  "xtz_events_of (sort_key timestamp events) = xtz_events_of events"
  by (simp add: xtz_events_of_def filter_sort sort_key_id_if_sorted)

section \<open>Over-disposal\<close>

lemma irs_event_lots_nonneg:
  assumes "list_all (\<lambda>l. 0 \<le> qty l) (xtz_lots st)"
  shows "list_all (\<lambda>l. 0 \<le> qty l) (xtz_lots (irs_event fmv e st))"
proof (cases "asset e = ''XTZ'' \<and> direction e = ''out'' \<and> 0 < quantity e")
  case True
  then have h1: "asset e = ''XTZ''" and h2: "direction e = ''out''" and h3: "0 < quantity e"
    by simp_all
  from h1 h2 h3 obtain q' lots' basis ds where
    a: "fifo_loop (quantity e) (xtz_lots st) 0 [] = (q', lots', basis, ds)"
    and l: "xtz_lots (irs_event fmv e st) = lots'"
    by (rule irs_event_out [of e st fmv]) simp
  from fifo_loop_lots_nonneg [OF a assms] l show ?thesis by simp
next
  case False
  with assms show ?thesis by (auto simp: irs_event_def)
qed

text \<open>
  C4, as the claim states it, fails on the FIFO breakdown: a disposal of 5 units with no
  open lot is priced and recorded with basis 0, and its breakdown is empty; there is no
  zero-cost entry and no flag.
\<close>

theorem over_disposal_counterexample:
  "map_sum id (\<lambda>(ledger, ds). map (\<lambda>d. (irs_qty_disposed d, basis_usd_fifo_est d, lot_breakdown d)) ds)
     (classify_irs (priced_world (\<lambda>d. 3)) [xtz_ev 0 ''out'' 5] (PriceOracle ''usd'')) =
     Inr [(5, 0, [])]"
  by (simp add: oracle_defs num_defs irs_defs)

text \<open>
  C4, amended. No disposal stops a run: neither engine returns an error unless a price
  request fails. In the FIFO engine, when the open lots (none negative) hold less than the
  disposed quantity, the record is still appended with the whole quantity and its proceeds,
  its breakdown has exactly one entry per open lot, each taking the lot whole at the lot's
  unit cost and none standing for the shortfall, its basis is the cost of those lots alone,
  and the queue is left empty. In the UK engine, when the pool is exhausted (its quantity
  is within the tolerance), the record is still appended, its allowable cost is the cost of
  its same-day and 30-day entries alone, and the pool is left as it was. Nothing is said
  here of a pool that holds something but less than the residual.
\<close>

theorem over_disposal_zero_cost:
  "(asset e = ''XTZ'' \<and> direction e = ''out'' \<and> 0 < quantity e \<and>
    list_all (\<lambda>l. 0 \<le> qty l) (xtz_lots st) \<and>
    sum_list (map qty (xtz_lots st)) + eps < quantity e \<longrightarrow>
      (\<exists>d. disposals (irs_event fmv e st) = disposals st @ [d] \<and>
         irs_qty_disposed d = quantity e \<and>
         proceeds_usd_est d = round8 (quantity e * fmv) \<and>
         lot_breakdown d =
           map (\<lambda>l. \<lparr>from_lot_acquired_ts = acquired_ts l, take_qty = qty l,
                      basis_per_usd = basis_per l\<rparr>) (xtz_lots st) \<and>
         basis_usd_fifo_est d = round8 (sum_list (map (\<lambda>l. qty l * basis_per l) (xtz_lots st))) \<and>
         xtz_lots (irs_event fmv e st) = [])) \<and>
   (direction e' \<noteq> ''in'' \<and> pool_qty st' \<le> eps \<longrightarrow>
      (\<exists>d. uk_disposals (hmrc_event fmv' e' st') = uk_disposals st' @ [d] \<and>
         hmrc_qty_disposed d = quantity e' \<and>
         proceeds_gbp_est d = round8 (quantity e' * fmv') \<and>
         allowable_cost_gbp_est d =
           round8 (sum_list (map used_cost (filter is_acq_used (matching_breakdown d)))) \<and>
         pool_qty (hmrc_event fmv' e' st') = pool_qty st' \<and>
         pool_cost_gbp (hmrc_event fmv' e' st') = pool_cost_gbp st')) \<and>
   ((\<forall>d. \<exists>j. fetch w d = Inr j) \<longrightarrow>
      (\<exists>r. classify_irs w events orc = Inr r) \<and>
      (\<exists>r. hmrc_pooling_disposals w events orc' = Inr r))"
proof (intro conjI impI)
  assume h: "asset e = ''XTZ'' \<and> direction e = ''out'' \<and> 0 < quantity e \<and>
    list_all (\<lambda>l. 0 \<le> qty l) (xtz_lots st) \<and>
    sum_list (map qty (xtz_lots st)) + eps < quantity e"
  then have h1: "asset e = ''XTZ''" and h2: "direction e = ''out''" and h3: "0 < quantity e"
    and h4: "list_all (\<lambda>l. 0 \<le> qty l) (xtz_lots st)"
    and h5: "sum_list (map qty (xtz_lots st)) + eps < quantity e"
    by simp_all
  from h1 h2 h3 obtain q' lots' basis ds where
    a: "fifo_loop (quantity e) (xtz_lots st) 0 [] = (q', lots', basis, ds)"
    and l: "xtz_lots (irs_event fmv e st) = lots'"
    and d: "disposals (irs_event fmv e st) = disposals st @
       [\<lparr>irs_timestamp = timestamp e, irs_asset = asset e, irs_qty_disposed = quantity e,
         fmv_usd_per_xtz_used = round8 fmv, proceeds_usd_est = round8 (quantity e * fmv),
         basis_usd_fifo_est = round8 basis, gain_usd_est = round8 (quantity e * fmv - basis),
         irs_fee_xtz = fee_xtz e, irs_op_hash = op_hash e, lot_breakdown = ds\<rparr>]"
    by (rule irs_event_out [of e st fmv]) simp
  from fifo_loop_lower [OF a h4] h5 have q: "eps < q'" by simp
  from fifo_loop_whole_lots [OF a q] have w: "ds =
      map (\<lambda>l. \<lparr>from_lot_acquired_ts = acquired_ts l, take_qty = qty l,
                 basis_per_usd = basis_per l\<rparr>) (xtz_lots st)"
    by simp
  from fifo_loop_exhaust [OF a q] have x: "lots' = []" by simp
  from fifo_loop_basis [OF a] have "basis = sum_list (map lot_cost ds)" by simp
  also have "\<dots> = sum_list (map (\<lambda>l. qty l * basis_per l) (xtz_lots st))"
    unfolding w by (simp add: comp_def lot_cost_def)
  finally have b: "basis = sum_list (map (\<lambda>l. qty l * basis_per l) (xtz_lots st))" .
  show "\<exists>d. disposals (irs_event fmv e st) = disposals st @ [d] \<and>
         irs_qty_disposed d = quantity e \<and>
         proceeds_usd_est d = round8 (quantity e * fmv) \<and>
         lot_breakdown d =
           map (\<lambda>l. \<lparr>from_lot_acquired_ts = acquired_ts l, take_qty = qty l,
                      basis_per_usd = basis_per l\<rparr>) (xtz_lots st) \<and>
         basis_usd_fifo_est d = round8 (sum_list (map (\<lambda>l. qty l * basis_per l) (xtz_lots st))) \<and>
         xtz_lots (irs_event fmv e st) = []"
    unfolding d l x using w b by simp
next
  assume h: "direction e' \<noteq> ''in'' \<and> pool_qty st' \<le> eps"
  then have h1: "direction e' \<noteq> ''in''" and h2: "pool_qty st' \<le> eps" by simp_all
  from h1 obtain sd_cost sd_used lst' ql ct mu fut' pu pcost pq' pc' where
    a: "consume_from_list (case acq_by_day st' (strftime_day (timestamp e')) of None \<Rightarrow> [] | Some l \<Rightarrow> l)
       (quantity e') = (sd_cost, sd_used, lst')"
    and b: "thirty_day_match (timestamp e') (future_acqs st')
       (quantity e' - sum_list (map used_take_qty sd_used)) sd_cost sd_used = (ql, ct, mu, fut')"
    and c: "pool_match (pool_qty st') (pool_cost_gbp st') ql = (pu, pcost, pq', pc')"
    and q: "pool_qty (hmrc_event fmv' e' st') = pq'"
    and p: "pool_cost_gbp (hmrc_event fmv' e' st') = pc'"
    and u: "uk_disposals (hmrc_event fmv' e' st') = uk_disposals st' @
       [\<lparr>hmrc_timestamp = timestamp e', hmrc_asset = ''XTZ'', hmrc_qty_disposed = quantity e',
         fmv_gbp_per_xtz_used = round8 fmv', proceeds_gbp_est = round8 (quantity e' * fmv'),
         allowable_cost_gbp_est = round8 (if eps < ql then ct + pcost else ct),
         gain_gbp_est = round8 (quantity e' * fmv' - (if eps < ql then ct + pcost else ct)),
         hmrc_op_hash = op_hash e', matching_breakdown = mu @ pu\<rparr>]"
    by (rule hmrc_event_out [of e' st' fmv']) simp
  from c h2 have n: "pu = []" "pcost = 0" "pq' = pool_qty st'" "pc' = pool_cost_gbp st'"
    by (simp_all add: pool_match_none)
  note s = hmrc_matching_summary(2,4) [OF a b]
  show "\<exists>d. uk_disposals (hmrc_event fmv' e' st') = uk_disposals st' @ [d] \<and>
         hmrc_qty_disposed d = quantity e' \<and>
         proceeds_gbp_est d = round8 (quantity e' * fmv') \<and>
         allowable_cost_gbp_est d =
           round8 (sum_list (map used_cost (filter is_acq_used (matching_breakdown d)))) \<and>
         pool_qty (hmrc_event fmv' e' st') = pool_qty st' \<and>
         pool_cost_gbp (hmrc_event fmv' e' st') = pool_cost_gbp st'"
    unfolding u q p using n s by simp
next
  assume "\<forall>d. \<exists>j. fetch w d = Inr j"
  then show "\<exists>r. classify_irs w events orc = Inr r"
    by (intro classify_irs_ok) simp
next
  assume "\<forall>d. \<exists>j. fetch w d = Inr j"
  then show "\<exists>r. hmrc_pooling_disposals w events orc' = Inr r"
    by (intro hmrc_pooling_disposals_ok) simp
qed

theorem over_disposal_zero_cost_witness:
  "asset (xtz_ev 172800 ''out'' 15) = ''XTZ'' \<and> direction (xtz_ev 172800 ''out'' 15) = ''out'' \<and>
   0 < quantity (xtz_ev 172800 ''out'' 15) \<and>
   list_all (\<lambda>l. 0 \<le> qty l) (xtz_lots (irs_event 2 (xtz_ev 86400 ''in'' 10) irs_init)) \<and>
   sum_list (map qty (xtz_lots (irs_event 2 (xtz_ev 86400 ''in'' 10) irs_init))) + eps
     < quantity (xtz_ev 172800 ''out'' 15) \<and>
   (\<exists>d. disposals (irs_event 5 (xtz_ev 172800 ''out'' 15)
            (irs_event 2 (xtz_ev 86400 ''in'' 10) irs_init)) = [d] \<and>
      lot_breakdown d = [\<lparr>from_lot_acquired_ts = 86400, take_qty = 10, basis_per_usd = 2\<rparr>] \<and>
      basis_usd_fifo_est d = 20) \<and>
   direction (xtz_ev 0 ''out'' 5) \<noteq> ''in'' \<and> pool_qty hmrc_init \<le> eps \<and>
   (\<exists>d. uk_disposals (hmrc_event 3 (xtz_ev 0 ''out'' 5) hmrc_init) = [d] \<and>
      hmrc_qty_disposed d = 5) \<and>
   (\<forall>d. \<exists>j. fetch (priced_world (\<lambda>d. 3)) d = Inr j) \<and>
   (\<exists>r. classify_irs (priced_world (\<lambda>d. 3)) [xtz_ev 0 ''out'' 5] (PriceOracle ''usd'') = Inr r)"
proof -
  have a: "xtz_lots (irs_event 2 (xtz_ev 86400 ''in'' 10) irs_init) =
      [\<lparr>acquired_ts = 86400, qty = 10, basis_per = 2\<rparr>]"
    "disposals (irs_event 2 (xtz_ev 86400 ''in'' 10) irs_init) = []"
    by (simp_all add: irs_defs)
  have b: "pool_qty hmrc_init = 0" "uk_disposals hmrc_init = []"
    by (simp_all add: hmrc_init_def)
  have e: "asset (xtz_ev 172800 ''out'' 15) = ''XTZ''" "direction (xtz_ev 172800 ''out'' 15) = ''out''"
    "quantity (xtz_ev 172800 ''out'' 15) = 15" "direction (xtz_ev 0 ''out'' 5) = ''out''"
    "quantity (xtz_ev 0 ''out'' 5) = 5"
    by (simp_all add: xtz_ev_def)
  have f: "\<forall>d. \<exists>j. fetch (priced_world (\<lambda>d. 3)) d = Inr j"
    by (simp add: priced_world_def)
  have r: "round8 20 = 20" "round8 75 = 75"
    by (simp_all add: num_defs)
  show ?thesis
    using over_disposal_zero_cost [where e = "xtz_ev 172800 ''out'' 15" and fmv = 5
      and st = "irs_event 2 (xtz_ev 86400 ''in'' 10) irs_init"
      and e' = "xtz_ev 0 ''out'' 5" and fmv' = 3 and st' = hmrc_init
      and w = "priced_world (\<lambda>d. 3)" and events = "[xtz_ev 0 ''out'' 5]"
      and orc = "PriceOracle ''usd''" and orc' = "PriceOracle ''gbp''"] f
    by (auto simp: a b e eps_def r)
qed

section \<open>Ordering of the input\<close>

text \<open>
  C5, as the claim states it, fails: on an input that is not sorted (a disposal at second
  50 listed before an acquisition at second 0) neither engine reports an error. The UK
  engine sorts the events and matches the disposal to the acquisition of its day; the FIFO
  engine takes the events as listed and finds no lot for the disposal.
\<close>

theorem out_of_order_counterexample:
  "\<not> sorted (map timestamp [xtz_ev 50 ''out'' 5, xtz_ev 0 ''in'' 5]) \<and>
   map_sum id (map (\<lambda>d. (hmrc_timestamp d, allowable_cost_gbp_est d, matching_breakdown d)))
     (hmrc_pooling_disposals (priced_world (\<lambda>d. 3)) [xtz_ev 50 ''out'' 5, xtz_ev 0 ''in'' 5]
        (PriceOracle ''gbp'')) =
     Inr [(50, 15, [AcqUsed 0 5 3 None])] \<and>
   map_sum id (\<lambda>(ledger, ds). map (\<lambda>d. (irs_timestamp d, basis_usd_fifo_est d, lot_breakdown d)) ds)
     (classify_irs (priced_world (\<lambda>d. 3)) [xtz_ev 50 ''out'' 5, xtz_ev 0 ''in'' 5]
        (PriceOracle ''usd'')) =
     Inr [(50, 0, [])]"
  by (simp add: oracle_defs num_defs irs_defs hmrc_defs)

text \<open>
  C5, amended. No engine checks the order of its input and none rejects a run for it.
  \<open>hmrc_pooling_disposals\<close> sorts its XTZ events by timestamp (a stable sort) before
  matching, so its result on any input is its result on the sorted input;
  \<open>build_events\<close> hands over a list sorted by timestamp, which \<open>classify_irs\<close> processes
  as given; and a run returns an error only when a price request fails.
\<close>

theorem input_order_not_validated:
  "hmrc_pooling_disposals w events orc =
     hmrc_pooling_disposals w (sort_key timestamp events) orc \<and>
   sorted (map timestamp (build_events address xtz_ops tok_events)) \<and>
   ((\<forall>d. \<exists>j. fetch w d = Inr j) \<longrightarrow>
      (\<exists>r. classify_irs w events orc' = Inr r) \<and>
      (\<exists>r. hmrc_pooling_disposals w events orc = Inr r))"
proof (intro conjI impI)
  show "hmrc_pooling_disposals w events orc =
     hmrc_pooling_disposals w (sort_key timestamp events) orc"
    unfolding hmrc_pooling_disposals_def hmrc_run_def xtz_events_of_sort ..
  show "sorted (map timestamp (build_events address xtz_ops tok_events))"
    by (simp add: build_events_def)
next
  assume "\<forall>d. \<exists>j. fetch w d = Inr j"
  then show "\<exists>r. classify_irs w events orc' = Inr r"
    by (intro classify_irs_ok) simp
next
  assume "\<forall>d. \<exists>j. fetch w d = Inr j"
  then show "\<exists>r. hmrc_pooling_disposals w events orc = Inr r"
    by (intro hmrc_pooling_disposals_ok) simp
qed

theorem input_order_not_validated_witness:
  "(\<forall>d. \<exists>j. fetch (priced_world (\<lambda>d. 3)) d = Inr j) \<and>
   \<not> sorted (map timestamp [xtz_ev 50 ''out'' 5, xtz_ev 0 ''in'' 5]) \<and>
   (\<exists>r. classify_irs (priced_world (\<lambda>d. 3)) [xtz_ev 50 ''out'' 5, xtz_ev 0 ''in'' 5]
      (PriceOracle ''usd'') = Inr r) \<and>
   (\<exists>r. hmrc_pooling_disposals (priced_world (\<lambda>d. 3)) [xtz_ev 50 ''out'' 5, xtz_ev 0 ''in'' 5]
      (PriceOracle ''gbp'') = Inr r)"
proof -
  have f: "\<forall>d. \<exists>j. fetch (priced_world (\<lambda>d. 3)) d = Inr j"
    by (simp add: priced_world_def)
  have s: "\<not> sorted (map timestamp [xtz_ev 50 ''out'' 5, xtz_ev 0 ''in'' 5])"
    by (simp add: xtz_ev_def)
  from input_order_not_validated [where w = "priced_world (\<lambda>d. 3)"
      and events = "[xtz_ev 50 ''out'' 5, xtz_ev 0 ''in'' 5]"
      and orc = "PriceOracle ''gbp''" and orc' = "PriceOracle ''usd''"] f s
  show ?thesis by blast
qed

section \<open>Missing prices\<close>

text \<open>
  C6, as the claim states it, fails: when the service answers a day without a price (an
  empty object), the lookup returns 0 and caches it, and the run goes on with proceeds 0.
\<close>

theorem missing_price_counterexample:
  "xtz_price_on_date \<lparr>fetch = (\<lambda>d. Inr (JObj [])), str_float = (\<lambda>s. None)\<rparr> (PriceOracle ''usd'') 7 =
     Inr (0, (PriceOracle ''usd'')\<lparr>cache := [7 \<mapsto> 0]\<rparr>) \<and>
   map_sum id (\<lambda>(ledger, ds). map (\<lambda>d. (irs_qty_disposed d, fmv_usd_per_xtz_used d, proceeds_usd_est d)) ds)
     (classify_irs \<lparr>fetch = (\<lambda>d. Inr (JObj [])), str_float = (\<lambda>s. None)\<rparr> [xtz_ev 0 ''out'' 5]
        (PriceOracle ''usd'')) =
     Inr [(5, 0, 0)]"
  by (simp add: oracle_defs num_defs irs_defs)

text \<open>
  C6, amended. A price lookup fails exactly when the day is not cached and the request
  itself raises; that exception ends the run. When the answer arrives but holds no usable
  price for the currency, the lookup returns 0, caches it, and the run continues.
\<close>

theorem price_lookup_outcomes:
  "(xtz_price_on_date w orc d = Inl x \<longleftrightarrow> cache orc d = None \<and> fetch w d = Inl x) \<and>
   (cache orc d = None \<and> fetch w d = Inr data \<and> current_price w (vs orc) data = Inl x' \<longrightarrow>
      xtz_price_on_date w orc d = Inr (0, orc\<lparr>cache := (cache orc)(d \<mapsto> 0)\<rparr>)) \<and>
   (cache orc (strftime_day (timestamp e)) = None \<and> fetch w (strftime_day (timestamp e)) = Inl x \<longrightarrow>
      (asset e = ''XTZ'' \<longrightarrow> classify_irs w (e # es) orc = Inl x) \<and>
      first_pass w (e # es) orc st = Inl x)"
proof (intro conjI impI)
  show "xtz_price_on_date w orc d = Inl x \<longleftrightarrow> cache orc d = None \<and> fetch w d = Inl x"
    by (rule xtz_price_on_date_Inl)
next
  assume "cache orc d = None \<and> fetch w d = Inr data \<and> current_price w (vs orc) data = Inl x'"
  then show "xtz_price_on_date w orc d = Inr (0, orc\<lparr>cache := (cache orc)(d \<mapsto> 0)\<rparr>)"
    by (simp add: xtz_price_on_date_def)
next
  assume h: "cache orc (strftime_day (timestamp e)) = None \<and>
    fetch w (strftime_day (timestamp e)) = Inl x"
  then have p: "xtz_fmv w orc (iso_to_dt (timestamp e)) = Inl x"
    by (simp add: xtz_fmv_def iso_to_dt_def xtz_price_on_date_Inl)
  then show "first_pass w (e # es) orc st = Inl x" by simp
  assume "asset e = ''XTZ''"
  with p show "classify_irs w (e # es) orc = Inl x" by (simp add: classify_irs_def)
qed

theorem price_lookup_outcomes_witness:
  "cache (PriceOracle ''usd'') (strftime_day (timestamp (xtz_ev 0 ''out'' 5))) = None \<and>
   fetch \<lparr>fetch = (\<lambda>d. Inl RequestFailed), str_float = (\<lambda>s. None)\<rparr>
     (strftime_day (timestamp (xtz_ev 0 ''out'' 5))) = Inl RequestFailed \<and>
   asset (xtz_ev 0 ''out'' 5) = ''XTZ'' \<and>
   classify_irs \<lparr>fetch = (\<lambda>d. Inl RequestFailed), str_float = (\<lambda>s. None)\<rparr> [xtz_ev 0 ''out'' 5]
     (PriceOracle ''usd'') = Inl RequestFailed \<and>
   cache (PriceOracle ''usd'') 7 = None \<and>
   current_price \<lparr>fetch = (\<lambda>d. Inr JNull), str_float = (\<lambda>s. None)\<rparr> (vs (PriceOracle ''usd'')) JNull =
     Inl TypeError \<and>
   xtz_price_on_date \<lparr>fetch = (\<lambda>d. Inr JNull), str_float = (\<lambda>s. None)\<rparr> (PriceOracle ''usd'') 7 =
     Inr (0, (PriceOracle ''usd'')\<lparr>cache := (cache (PriceOracle ''usd''))(7 \<mapsto> 0)\<rparr>)"
proof -
  have a: "cache (PriceOracle ''usd'') (strftime_day (timestamp (xtz_ev 0 ''out'' 5))) = None"
    "cache (PriceOracle ''usd'') 7 = None" "asset (xtz_ev 0 ''out'' 5) = ''XTZ''"
    by (simp_all add: PriceOracle_def xtz_ev_def)
  have b: "current_price \<lparr>fetch = (\<lambda>d. Inr JNull), str_float = (\<lambda>s. None)\<rparr>
      (vs (PriceOracle ''usd'')) JNull = Inl TypeError"
    by (simp add: current_price_def)
  from price_lookup_outcomes [where w = "\<lparr>fetch = (\<lambda>d. Inl RequestFailed), str_float = (\<lambda>s. None)\<rparr>"
      and orc = "PriceOracle ''usd''" and e = "xtz_ev 0 ''out'' 5" and x = RequestFailed and es = "[]"]
    price_lookup_outcomes [where w = "\<lparr>fetch = (\<lambda>d. Inr JNull), str_float = (\<lambda>s. None)\<rparr>"
      and orc = "PriceOracle ''usd''" and d = 7 and data = JNull and x' = TypeError] a b
  show ?thesis by simp
qed

section \<open>Two defects of the UK engine\<close>

text \<open>
  C1. The claim does not hold of the code. A disposal of 20 units at 09:00 and an
  acquisition of 10 units at 10:00 of the same day: the same-day step takes the 10 units
  from the day's bucket and the 30-day step takes the same 10 units again from
  \<open>future_acqs\<close>, which the same-day step never updates. The one acquisition of 10 units
  is matched for 20.
\<close>

theorem acquisition_matched_twice:
  "hmrc_pooling_disposals (priced_world (\<lambda>d. 1))
     [xtz_ev 32400 ''out'' 20, xtz_ev 36000 ''in'' 10] (PriceOracle ''gbp'') =
   Inr [\<lparr>hmrc_timestamp = 32400, hmrc_asset = ''XTZ'', hmrc_qty_disposed = 20,
          fmv_gbp_per_xtz_used = 1, proceeds_gbp_est = 20, allowable_cost_gbp_est = 20,
          gain_gbp_est = 0, hmrc_op_hash = ''op'',
          matching_breakdown = [AcqUsed 36000 10 1 None, AcqUsed 36000 10 1 (Some ''30-day'')]\<rparr>]"
  by (simp add: oracle_defs num_defs hmrc_defs)

text \<open>
  C2. The claim does not hold of the code. 5 units acquired on day 0 and 10 units
  disposed of on day 40 (no same-day and no 30-day match): the pool holds 5 units, more
  than the tolerance, so the whole residual of 10 is debited and the run ends with a pool
  quantity of -5 and a pool cost of -5.
\<close>

theorem pool_goes_negative:
  "map_sum id (\<lambda>(st, orc). (pool_qty st, pool_cost_gbp st, map matching_breakdown (uk_disposals st)))
     (hmrc_run (priced_world (\<lambda>d. 1)) [xtz_ev 0 ''in'' 5, xtz_ev 3456000 ''out'' 10]
        (PriceOracle ''gbp'')) =
   Inr (- 5, - 5, [[PoolUsed 10 1 ''S104'']])"
  by (simp add: oracle_defs num_defs hmrc_defs)

section \<open>Every disposal event gets its record\<close>

lemma irs_event_disposals_mono:
  "set (disposals st) \<subseteq> set (disposals (irs_event fmv e st))"
  by (auto simp: irs_event_def Let_def split: prod.splits)

lemma irs_event_emits:
  assumes "asset e = ''XTZ''" and "direction e = ''out''" and "0 < quantity e"
  shows "\<exists>d. d \<in> set (disposals (irs_event fmv e st)) \<and> irs_timestamp d = timestamp e \<and>
     irs_op_hash d = op_hash e \<and> irs_qty_disposed d = quantity e"
proof -
  from assms obtain q' lots' basis ds where
    "disposals (irs_event fmv e st) = disposals st @
       [\<lparr>irs_timestamp = timestamp e, irs_asset = asset e, irs_qty_disposed = quantity e,
         fmv_usd_per_xtz_used = round8 fmv, proceeds_usd_est = round8 (quantity e * fmv),
         basis_usd_fifo_est = round8 basis, gain_usd_est = round8 (quantity e * fmv - basis),
         irs_fee_xtz = fee_xtz e, irs_op_hash = op_hash e, lot_breakdown = ds\<rparr>]"
    by (rule irs_event_out [of e st fmv]) simp
  then have "disposals (irs_event fmv e st) \<noteq> []"
    and "irs_timestamp (last (disposals (irs_event fmv e st))) = timestamp e"
    and "irs_op_hash (last (disposals (irs_event fmv e st))) = op_hash e"
    and "irs_qty_disposed (last (disposals (irs_event fmv e st))) = quantity e"
    by simp_all
  then show ?thesis using last_in_set by blast
qed

lemma classify_irs_loop_mono:
  "classify_irs_loop w es orc st = Inr (st', orc') \<Longrightarrow> set (disposals st) \<subseteq> set (disposals st')"
proof (induction es arbitrary: orc st)
  case Nil
  then show ?case by simp
next
  case (Cons e es)
  from Cons.prems obtain fmv orc1 where
    r: "classify_irs_loop w es orc1 (irs_event fmv e st) = Inr (st', orc')"
    by (auto split: sum.splits if_splits)
  from Cons.IH [OF r] irs_event_disposals_mono [of st fmv e] show ?case by blast
qed

lemma classify_irs_loop_emits:
  assumes "classify_irs_loop w es orc st = Inr (st', orc')" and "e \<in> set es"
    and "asset e = ''XTZ''" and "direction e = ''out''" and "0 < quantity e"
  shows "\<exists>d. d \<in> set (disposals st') \<and> irs_timestamp d = timestamp e \<and>
     irs_op_hash d = op_hash e \<and> irs_qty_disposed d = quantity e"
  using assms(1,2)
proof (induction es arbitrary: orc st)
  case Nil
  then show ?case by simp
next
  case (Cons a es)
  from Cons.prems(1) obtain fmv orc1 where
    r: "classify_irs_loop w es orc1 (irs_event fmv a st) = Inr (st', orc')"
    by (auto split: sum.splits if_splits)
  show ?case
  proof (cases "e = a")
    case True
    from irs_event_emits [OF assms(3,4,5), of fmv st] True classify_irs_loop_mono [OF r]
    show ?thesis by blast
  next
    case False
    with Cons.prems(2) have "e \<in> set es" by simp
    from Cons.IH [OF r this] show ?thesis .
  qed
qed

lemma hmrc_event_disposals_mono:
  "set (uk_disposals st) \<subseteq> set (uk_disposals (hmrc_event fmv e st))"
proof (cases "direction e = ''in''")
  case True
  then show ?thesis by (simp add: hmrc_event_in)
next
  case False
  then obtain sd_cost sd_used lst' ql ct mu fut' pu pcost pq' pc' where
    "uk_disposals (hmrc_event fmv e st) = uk_disposals st @
       [\<lparr>hmrc_timestamp = timestamp e, hmrc_asset = ''XTZ'', hmrc_qty_disposed = quantity e,
         fmv_gbp_per_xtz_used = round8 fmv, proceeds_gbp_est = round8 (quantity e * fmv),
         allowable_cost_gbp_est = round8 (if eps < ql then ct + pcost else ct),
         gain_gbp_est = round8 (quantity e * fmv - (if eps < ql then ct + pcost else ct)),
         hmrc_op_hash = op_hash e, matching_breakdown = mu @ pu\<rparr>]"
    by (rule hmrc_event_out [of e st fmv]) simp
  then obtain d where "uk_disposals (hmrc_event fmv e st) = uk_disposals st @ [d]" by blast
  then show ?thesis by auto
qed

lemma hmrc_event_emits:
  assumes "direction e \<noteq> ''in''"
  shows "\<exists>d. d \<in> set (uk_disposals (hmrc_event fmv e st)) \<and> hmrc_timestamp d = timestamp e \<and>
     hmrc_op_hash d = op_hash e \<and> hmrc_qty_disposed d = quantity e"
proof -
  from assms obtain sd_cost sd_used lst' ql ct mu fut' pu pcost pq' pc' where
    "uk_disposals (hmrc_event fmv e st) = uk_disposals st @
       [\<lparr>hmrc_timestamp = timestamp e, hmrc_asset = ''XTZ'', hmrc_qty_disposed = quantity e,
         fmv_gbp_per_xtz_used = round8 fmv, proceeds_gbp_est = round8 (quantity e * fmv),
         allowable_cost_gbp_est = round8 (if eps < ql then ct + pcost else ct),
         gain_gbp_est = round8 (quantity e * fmv - (if eps < ql then ct + pcost else ct)),
         hmrc_op_hash = op_hash e, matching_breakdown = mu @ pu\<rparr>]"
    by (rule hmrc_event_out [of e st fmv]) simp
  then have "uk_disposals (hmrc_event fmv e st) \<noteq> []"
    and "hmrc_timestamp (last (uk_disposals (hmrc_event fmv e st))) = timestamp e"
    and "hmrc_op_hash (last (uk_disposals (hmrc_event fmv e st))) = op_hash e"
    and "hmrc_qty_disposed (last (uk_disposals (hmrc_event fmv e st))) = quantity e"
    by simp_all
  then show ?thesis using last_in_set by blast
qed

lemma second_pass_mono:
  "second_pass w es orc st = Inr (st', orc') \<Longrightarrow> set (uk_disposals st) \<subseteq> set (uk_disposals st')"
proof (induction es arbitrary: orc st)
  case Nil
  then show ?case by simp
next
  case (Cons e es)
  from Cons.prems obtain fmv orc1 where
    r: "second_pass w es orc1 (hmrc_event fmv e st) = Inr (st', orc')"
    by (auto split: sum.splits)
  from Cons.IH [OF r] hmrc_event_disposals_mono [of st fmv e] show ?case by blast
qed

lemma second_pass_emits:
  assumes "second_pass w es orc st = Inr (st', orc')" and "e \<in> set es"
    and "direction e \<noteq> ''in''"
  shows "\<exists>d. d \<in> set (uk_disposals st') \<and> hmrc_timestamp d = timestamp e \<and>
     hmrc_op_hash d = op_hash e \<and> hmrc_qty_disposed d = quantity e"
  using assms(1,2)
proof (induction es arbitrary: orc st)
  case Nil
  then show ?case by simp
next
  case (Cons a es)
  from Cons.prems(1) obtain fmv orc1 where
    r: "second_pass w es orc1 (hmrc_event fmv a st) = Inr (st', orc')"
    by (auto split: sum.splits)
  show ?case
  proof (cases "e = a")
    case True
    from hmrc_event_emits [OF assms(3), of fmv st] True second_pass_mono [OF r]
    show ?thesis by blast
  next
    case False
    with Cons.prems(2) have "e \<in> set es" by simp
    from Cons.IH [OF r this] show ?thesis .
  qed
qed

lemma classify_irs_emits:
  assumes "\<And>d. \<exists>j. fetch w d = Inr j" and "e \<in> set events"
    and "asset e = ''XTZ''" and "direction e = ''out''" and "0 < quantity e"
  shows "\<exists>ledger ds d. classify_irs w events orc = Inr (ledger, ds) \<and> d \<in> set ds \<and>
     irs_timestamp d = timestamp e \<and> irs_op_hash d = op_hash e \<and> irs_qty_disposed d = quantity e"
proof -
  from classify_irs_loop_ok [OF assms(1), of events orc irs_init]
  obtain st' orc' where r: "classify_irs_loop w events orc irs_init = Inr (st', orc')" by auto
  from classify_irs_loop_emits [OF r assms(2,3,4,5)] r show ?thesis
    by (simp add: classify_irs_def)
qed

lemma hmrc_pooling_disposals_emits:
  assumes "\<And>d. \<exists>j. fetch w d = Inr j" and "e \<in> set events"
    and "asset e = ''XTZ''" and "direction e \<noteq> ''in''" and "0 < quantity e"
  shows "\<exists>ds d. hmrc_pooling_disposals w events orc = Inr ds \<and> d \<in> set ds \<and>
     hmrc_timestamp d = timestamp e \<and> hmrc_op_hash d = op_hash e \<and> hmrc_qty_disposed d = quantity e"
proof -
  from assms(2,3,5) have m: "e \<in> set (xtz_events_of events)"
    by (simp add: xtz_events_of_def)
  obtain st1 orc1 where a: "first_pass w (xtz_events_of events) orc hmrc_init = Inr (st1, orc1)"
    using first_pass_ok [OF assms(1), of "xtz_events_of events" orc hmrc_init] by auto
  obtain st2 orc2 where b: "second_pass w (xtz_events_of events) orc1 st1 = Inr (st2, orc2)"
    using second_pass_ok [OF assms(1), of "xtz_events_of events" orc1 st1] by auto
  from second_pass_emits [OF b m assms(4)] a b show ?thesis
    by (simp add: hmrc_pooling_disposals_def hmrc_run_def)
qed

lemma map_filter_member:
  "x \<in> set xs \<Longrightarrow> f x = Some y \<Longrightarrow> y \<in> set (List.map_filter f xs)"
  by (induction xs) (auto split: option.splits)

text \<open>
  C10. An XTZ transaction with a timestamp whose sender and target are both the scanned
  address, with a positive amount, becomes an event of direction \<open>out\<close> tagged
  \<open>payment_or_disposal|self_transfer\<close>, and it is among the events \<open>build_events\<close>
  returns. Whatever list of events it stands in, both engines emit a disposal record for
  it (with its timestamp, hash and quantity) whenever the price requests succeed.
\<close>

theorem self_transfer_is_disposal:
  "op_timestamp op = Some t \<and> sender op = address \<and> target op = address \<and> 0 < amount op \<longrightarrow>
     (\<exists>ev. xtz_op_event address op = Some ev \<and> timestamp ev = t \<and> op_hash ev = hash op \<and>
        asset ev = ''XTZ'' \<and> direction ev = ''out'' \<and>
        tags ev = ''payment_or_disposal|self_transfer'' \<and> confidence ev = ''high'' \<and>
        quantity ev = amount op / 1000000 \<and>
        (op \<in> set xtz_ops \<longrightarrow> ev \<in> set (build_events address xtz_ops tok_events)) \<and>
        (ev \<in> set events \<and> (\<forall>d. \<exists>j. fetch w d = Inr j) \<longrightarrow>
           (\<exists>ledger ds d. classify_irs w events orc = Inr (ledger, ds) \<and> d \<in> set ds \<and>
              irs_timestamp d = t \<and> irs_op_hash d = hash op \<and> irs_qty_disposed d = quantity ev) \<and>
           (\<exists>ds d. hmrc_pooling_disposals w events orc' = Inr ds \<and> d \<in> set ds \<and>
              hmrc_timestamp d = t \<and> hmrc_op_hash d = hash op \<and> hmrc_qty_disposed d = quantity ev)))"
proof
  assume h: "op_timestamp op = Some t \<and> sender op = address \<and> target op = address \<and> 0 < amount op"
  define ev where "ev = \<lparr>timestamp = t, level = op_level op, op_hash = hash op,
     kind = ''xtz_transfer'', direction = ''out'', counterparty = target op, asset = ''XTZ'',
     quantity = amount op / 1000000, fee_xtz = fee op / 1000000,
     note_text = (if has_parameter op then ''contract_call'' else ''transfer''),
     tags = ''payment_or_disposal|self_transfer'', confidence = ''high''\<rparr>"
  from h have b: "xtz_op_event address op = Some ev"
    by (simp add: xtz_op_event_def Let_def clamp_def ev_def)
  have f: "timestamp ev = t" "op_hash ev = hash op" "asset ev = ''XTZ''" "direction ev = ''out''"
    "tags ev = ''payment_or_disposal|self_transfer''" "confidence ev = ''high''"
    "quantity ev = amount op / 1000000"
    by (simp_all add: ev_def)
  from h f have q: "0 < quantity ev" by simp
  have m: "ev \<in> set (build_events address xtz_ops tok_events)" if "op \<in> set xtz_ops"
    using map_filter_member [of op xtz_ops "xtz_op_event address" ev, OF that b]
    by (simp add: build_events_def)
  have i: "\<exists>ledger ds d. classify_irs w events orc = Inr (ledger, ds) \<and> d \<in> set ds \<and>
       irs_timestamp d = t \<and> irs_op_hash d = hash op \<and> irs_qty_disposed d = quantity ev"
    if "ev \<in> set events" "\<forall>d. \<exists>j. fetch w d = Inr j"
  proof -
    from that(2) have fo: "\<And>d. \<exists>j. fetch w d = Inr j" by simp
    from classify_irs_emits [of w ev events orc, OF fo that(1) f(3) f(4) q] show ?thesis
      by (simp only: f(1,2))
  qed
  have u: "\<exists>ds d. hmrc_pooling_disposals w events orc' = Inr ds \<and> d \<in> set ds \<and>
       hmrc_timestamp d = t \<and> hmrc_op_hash d = hash op \<and> hmrc_qty_disposed d = quantity ev"
    if "ev \<in> set events" "\<forall>d. \<exists>j. fetch w d = Inr j"
  proof -
    from that(2) have fo: "\<And>d. \<exists>j. fetch w d = Inr j" by simp
    from f(4) have n: "direction ev \<noteq> ''in''" by simp
    from hmrc_pooling_disposals_emits [of w ev events orc', OF fo that(1) f(3) n q] show ?thesis
      by (simp only: f(1,2))
  qed
  show "\<exists>ev. xtz_op_event address op = Some ev \<and> timestamp ev = t \<and> op_hash ev = hash op \<and>
        asset ev = ''XTZ'' \<and> direction ev = ''out'' \<and>
        tags ev = ''payment_or_disposal|self_transfer'' \<and> confidence ev = ''high'' \<and>
        quantity ev = amount op / 1000000 \<and>
        (op \<in> set xtz_ops \<longrightarrow> ev \<in> set (build_events address xtz_ops tok_events)) \<and>
        (ev \<in> set events \<and> (\<forall>d. \<exists>j. fetch w d = Inr j) \<longrightarrow>
           (\<exists>ledger ds d. classify_irs w events orc = Inr (ledger, ds) \<and> d \<in> set ds \<and>
              irs_timestamp d = t \<and> irs_op_hash d = hash op \<and> irs_qty_disposed d = quantity ev) \<and>
           (\<exists>ds d. hmrc_pooling_disposals w events orc' = Inr ds \<and> d \<in> set ds \<and>
              hmrc_timestamp d = t \<and> hmrc_op_hash d = hash op \<and> hmrc_qty_disposed d = quantity ev))"
    by (rule exI [of _ ev]) (use b f m i u in blast)
qed

theorem self_transfer_is_disposal_witness:
  "op_timestamp self_transfer_op = Some 5 \<and> sender self_transfer_op = ''tz1Abc'' \<and>
   target self_transfer_op = ''tz1Abc'' \<and> 0 < amount self_transfer_op \<and>
   self_transfer_op \<in> set [self_transfer_op] \<and>
   (\<forall>d. \<exists>j. fetch (priced_world (\<lambda>d. 3)) d = Inr j) \<and>
   (\<exists>ev. xtz_op_event ''tz1Abc'' self_transfer_op = Some ev \<and> direction ev = ''out'' \<and>
      tags ev = ''payment_or_disposal|self_transfer'' \<and> quantity ev = 2 \<and>
      (\<exists>ledger ds d.
         classify_irs (priced_world (\<lambda>d. 3)) (build_events ''tz1Abc'' [self_transfer_op] [])
           (PriceOracle ''usd'') = Inr (ledger, ds) \<and>
         d \<in> set ds \<and> irs_op_hash d = ''oo'' \<and> irs_qty_disposed d = 2) \<and>
      (\<exists>ds d.
         hmrc_pooling_disposals (priced_world (\<lambda>d. 3)) (build_events ''tz1Abc'' [self_transfer_op] [])
           (PriceOracle ''gbp'') = Inr ds \<and>
         d \<in> set ds \<and> hmrc_op_hash d = ''oo'' \<and> hmrc_qty_disposed d = 2))"
proof -
  have h: "op_timestamp self_transfer_op = Some 5 \<and> sender self_transfer_op = ''tz1Abc'' \<and>
     target self_transfer_op = ''tz1Abc'' \<and> 0 < amount self_transfer_op"
    by (simp add: self_transfer_op_def)
  have g: "hash self_transfer_op = ''oo''" "amount self_transfer_op / 1000000 = 2"
    by (simp_all add: self_transfer_op_def)
  have f: "\<forall>d. \<exists>j. fetch (priced_world (\<lambda>d. 3)) d = Inr j"
    by (simp add: priced_world_def)
  from self_transfer_is_disposal [where op = self_transfer_op and t = 5 and address = "''tz1Abc''"
      and xtz_ops = "[self_transfer_op]" and tok_events = "[]"
      and events = "build_events ''tz1Abc'' [self_transfer_op] []"
      and w = "priced_world (\<lambda>d. 3)" and orc = "PriceOracle ''usd''"
      and orc' = "PriceOracle ''gbp''", THEN mp, OF h]
  obtain ev where e: "xtz_op_event ''tz1Abc'' self_transfer_op = Some ev" "direction ev = ''out''"
    "tags ev = ''payment_or_disposal|self_transfer''" "quantity ev = amount self_transfer_op / 1000000"
    "self_transfer_op \<in> set [self_transfer_op] \<longrightarrow>
       ev \<in> set (build_events ''tz1Abc'' [self_transfer_op] [])"
    "ev \<in> set (build_events ''tz1Abc'' [self_transfer_op] []) \<and>
       (\<forall>d. \<exists>j. fetch (priced_world (\<lambda>d. 3)) d = Inr j) \<longrightarrow>
       (\<exists>ledger ds d.
         classify_irs (priced_world (\<lambda>d. 3)) (build_events ''tz1Abc'' [self_transfer_op] [])
           (PriceOracle ''usd'') = Inr (ledger, ds) \<and>
         d \<in> set ds \<and> irs_timestamp d = 5 \<and> irs_op_hash d = hash self_transfer_op \<and>
         irs_qty_disposed d = quantity ev) \<and>
       (\<exists>ds d.
         hmrc_pooling_disposals (priced_world (\<lambda>d. 3)) (build_events ''tz1Abc'' [self_transfer_op] [])
           (PriceOracle ''gbp'') = Inr ds \<and>
         d \<in> set ds \<and> hmrc_timestamp d = 5 \<and> hmrc_op_hash d = hash self_transfer_op \<and>
         hmrc_qty_disposed d = quantity ev)"
    by blast
  from e(5) have m: "ev \<in> set (build_events ''tz1Abc'' [self_transfer_op] [])" by simp
  from e(4) g(2) have q: "quantity ev = 2" by simp
  from e(6) m f have r:
    "\<exists>ledger ds d.
         classify_irs (priced_world (\<lambda>d. 3)) (build_events ''tz1Abc'' [self_transfer_op] [])
           (PriceOracle ''usd'') = Inr (ledger, ds) \<and>
         d \<in> set ds \<and> irs_op_hash d = ''oo'' \<and> irs_qty_disposed d = 2"
    "\<exists>ds d.
         hmrc_pooling_disposals (priced_world (\<lambda>d. 3)) (build_events ''tz1Abc'' [self_transfer_op] [])
           (PriceOracle ''gbp'') = Inr ds \<and>
         d \<in> set ds \<and> hmrc_op_hash d = ''oo'' \<and> hmrc_qty_disposed d = 2"
    unfolding g(1) q by blast+
  from h f e(1,2,3) q r show ?thesis by simp
qed

end
